theory Spec2Isabelle
  imports Complex_Main "HOL-Library.AList"
begin

section \<open>Numbers, points and failures\<close>

text \<open>
  The layout code works on numpy arrays of 64-bit floats. The embedding reads them as real
  numbers: a point is a pair of reals, an \<open>(n, 2)\<close> array a list of points. Python
  exceptions are values of \<open>error\<close>. numpy does not raise when a float array is divided
  by zero: it warns and goes on with \<open>inf\<close> or \<open>nan\<close>. No real number stands for those, so
  where positions are computed the embedding stops there with \<open>NonFinite\<close>, which is the
  only member of \<open>error\<close> that is not a Python exception. The compatibility scoring of
  the edge bundling, which turns \<open>inf\<close> and \<open>nan\<close> into numbers again, has floats with
  \<open>inf\<close> and \<open>nan\<close> of its own.
\<close>

datatype error =
  KeyError | ValueError | IndexError | ZeroDivisionError | NameError | OverflowError | NonFinite

fun ebind :: "error + 'a \<Rightarrow> ('a \<Rightarrow> error + 'b) \<Rightarrow> error + 'b" where
  "ebind (Inl e) f = Inl e"
| "ebind (Inr x) f = f x"

type_synonym vec = "real \<times> real"

definition vadd :: "vec \<Rightarrow> vec \<Rightarrow> vec" where
  "vadd a b = (fst a + fst b, snd a + snd b)"

definition vsub :: "vec \<Rightarrow> vec \<Rightarrow> vec" where
  "vsub a b = (fst a - fst b, snd a - snd b)"

definition smul :: "real \<Rightarrow> vec \<Rightarrow> vec" where
  "smul c a = (c * fst a, c * snd a)"

text \<open>\<open>a * b\<close> on two arrays is the elementwise product.\<close>

definition vmul :: "vec \<Rightarrow> vec \<Rightarrow> vec" where
  "vmul a b = (fst a * fst b, snd a * snd b)"

definition dot :: "vec \<Rightarrow> vec \<Rightarrow> real" where
  "dot a b = fst a * fst b + snd a * snd b"

text \<open>\<open>np.linalg.norm\<close> of one point.\<close>

definition linalg_norm :: "vec \<Rightarrow> real" where
  "linalg_norm a = sqrt (fst a * fst a + snd a * snd a)"

text \<open>Float division of numpy scalars and arrays: no exception, a non-finite result at zero.\<close>

definition fdiv :: "real \<Rightarrow> real \<Rightarrow> error + real" where
  "fdiv x y = (if y = 0 then Inl NonFinite else Inr (x / y))"

definition vdiv :: "vec \<Rightarrow> real \<Rightarrow> error + vec" where
  "vdiv a y = (if y = 0 then Inl NonFinite else Inr (fst a / y, snd a / y))"

text \<open>\<open>np.clip(x, lo, None)\<close> and \<open>np.clip(x, None, hi)\<close>.\<close>

definition clip_min :: "real \<Rightarrow> real \<Rightarrow> real" where
  "clip_min lo x = (if x < lo then lo else x)"

definition clip_max :: "real \<Rightarrow> real \<Rightarrow> real" where
  "clip_max hi x = (if hi < x then hi else x)"

section \<open>Floats with \<open>inf\<close> and \<open>nan\<close>\<close>

text \<open>
  The compatibility scoring of the edge bundling divides by lengths that can be zero and
  goes on with the \<open>inf\<close> or \<open>nan\<close> it gets: \<open>2 / inf\<close> is 0 again, Python's \<open>max\<close> and
  \<open>min\<close> keep or drop a \<open>nan\<close> depending on the order of their arguments, and a
  comparison with \<open>nan\<close> is false. The floats of that part are therefore values of
  \<open>npfloat\<close>: a real number, \<open>inf\<close>, \<open>-inf\<close> or \<open>nan\<close>, with the arithmetic of IEEE 754 on
  them and exact arithmetic on the real numbers. A zero divisor is \<open>+0\<close>: every divisor
  of the scoring is a norm, a square or a sum of norms.
\<close>

datatype npfloat = Finite real | PInf | NInf | NaN

fun nneg :: "npfloat \<Rightarrow> npfloat" where
  "nneg (Finite x) = Finite (- x)"
| "nneg PInf = NInf"
| "nneg NInf = PInf"
| "nneg NaN = NaN"

fun nadd :: "npfloat \<Rightarrow> npfloat \<Rightarrow> npfloat" where
  "nadd (Finite x) (Finite y) = Finite (x + y)"
| "nadd NaN b = NaN"
| "nadd a NaN = NaN"
| "nadd PInf NInf = NaN"
| "nadd NInf PInf = NaN"
| "nadd PInf b = PInf"
| "nadd a PInf = PInf"
| "nadd NInf b = NInf"
| "nadd a NInf = NInf"

definition nsub :: "npfloat \<Rightarrow> npfloat \<Rightarrow> npfloat" where
  "nsub a b = nadd a (nneg b)"

text \<open>The sign of a value that is not \<open>nan\<close>.\<close>

fun nsign :: "npfloat \<Rightarrow> real" where
  "nsign (Finite x) = sgn x"
| "nsign PInf = 1"
| "nsign NInf = - 1"
| "nsign NaN = 0"

fun nmul :: "npfloat \<Rightarrow> npfloat \<Rightarrow> npfloat" where
  "nmul (Finite x) (Finite y) = Finite (x * y)"
| "nmul NaN b = NaN"
| "nmul a NaN = NaN"
| "nmul a b = (if nsign a * nsign b = 0 then NaN
               else if 0 < nsign a * nsign b then PInf else NInf)"

fun ndiv :: "npfloat \<Rightarrow> npfloat \<Rightarrow> npfloat" where
  "ndiv (Finite x) (Finite y) =
     (if y = 0 then (if x = 0 then NaN else if 0 < x then PInf else NInf)
      else Finite (x / y))"
| "ndiv NaN b = NaN"
| "ndiv a NaN = NaN"
| "ndiv (Finite x) b = Finite 0"
| "ndiv PInf (Finite y) = (if 0 \<le> y then PInf else NInf)"
| "ndiv NInf (Finite y) = (if 0 \<le> y then NInf else PInf)"
| "ndiv a b = NaN"

fun nsqrt :: "npfloat \<Rightarrow> npfloat" where
  "nsqrt (Finite x) = (if x < 0 then NaN else Finite (sqrt x))"
| "nsqrt PInf = PInf"
| "nsqrt NInf = NaN"
| "nsqrt NaN = NaN"

fun nabs :: "npfloat \<Rightarrow> npfloat" where
  "nabs (Finite x) = Finite \<bar>x\<bar>"
| "nabs PInf = PInf"
| "nabs NInf = PInf"
| "nabs NaN = NaN"

text \<open>\<open>a < b\<close>: false as soon as one side is \<open>nan\<close>.\<close>

fun nless :: "npfloat \<Rightarrow> npfloat \<Rightarrow> bool" where
  "nless (Finite x) (Finite y) = (x < y)"
| "nless NaN b = False"
| "nless a NaN = False"
| "nless a NInf = False"
| "nless NInf b = True"
| "nless PInf b = False"
| "nless a PInf = True"

text \<open>
  Python's \<open>min(a, b)\<close> and \<open>max(a, b)\<close>: the first argument, unless the second is
  smaller (larger). With a \<open>nan\<close> the result depends on the order.
\<close>

definition py_min2 :: "npfloat \<Rightarrow> npfloat \<Rightarrow> npfloat" where
  "py_min2 a b = (if nless b a then b else a)"

definition py_max2 :: "npfloat \<Rightarrow> npfloat \<Rightarrow> npfloat" where
  "py_max2 a b = (if nless a b then b else a)"

text \<open>\<open>np.clip(x, lo, hi)\<close>, which passes a \<open>nan\<close> on.\<close>

definition np_clip :: "real \<Rightarrow> real \<Rightarrow> npfloat \<Rightarrow> npfloat" where
  "np_clip lo hi x =
     (if nless x (Finite lo) then Finite lo else if nless (Finite hi) x then Finite hi else x)"

text \<open>Points with such coordinates, and the array operations on them.\<close>

type_synonym npvec = "npfloat \<times> npfloat"

definition np_array :: "vec \<Rightarrow> npvec" where
  "np_array a = (Finite (fst a), Finite (snd a))"

definition nvadd :: "npvec \<Rightarrow> npvec \<Rightarrow> npvec" where
  "nvadd a b = (nadd (fst a) (fst b), nadd (snd a) (snd b))"

definition nvsub :: "npvec \<Rightarrow> npvec \<Rightarrow> npvec" where
  "nvsub a b = (nsub (fst a) (fst b), nsub (snd a) (snd b))"

definition nvscale :: "npfloat \<Rightarrow> npvec \<Rightarrow> npvec" where
  "nvscale c a = (nmul c (fst a), nmul c (snd a))"

definition nvmul :: "npvec \<Rightarrow> npvec \<Rightarrow> npvec" where
  "nvmul a b = (nmul (fst a) (fst b), nmul (snd a) (snd b))"

definition nvdiv :: "npvec \<Rightarrow> npfloat \<Rightarrow> npvec" where
  "nvdiv a y = (ndiv (fst a) y, ndiv (snd a) y)"

definition ndot :: "npvec \<Rightarrow> npvec \<Rightarrow> npfloat" where
  "ndot a b = nadd (nmul (fst a) (fst b)) (nmul (snd a) (snd b))"

definition nnorm :: "npvec \<Rightarrow> npfloat" where
  "nnorm a = nsqrt (ndot a a)"

section \<open>Edge segments and their compatibility (\<open>_edge_layout.py\<close>)\<close>

text \<open>
  \<open>class Segment\<close>. The field \<open>length\<close> is \<open>seg_length\<close> here. The constructor divides
  the vector by its length without a guard, and it computes \<open>midpoint\<close> as the elementwise
  product \<open>p0 * 0.5 * vector\<close>. The class of the same name in \<open>_main.py\<close> has the same
  \<open>vector\<close>, \<open>length\<close> and \<open>midpoint\<close> and no \<open>unit_vector\<close>.
\<close>

record segment =
  p0 :: npvec
  p1 :: npvec
  vector :: npvec
  seg_length :: npfloat
  unit_vector :: npvec
  midpoint :: npvec

definition Segment :: "npvec \<Rightarrow> npvec \<Rightarrow> segment" where
  "Segment a b =
     (let v = nvsub b a; l = nnorm v
      in \<lparr> p0 = a, p1 = b, vector = v, seg_length = l, unit_vector = nvdiv v l,
           midpoint = nvmul (nvscale (Finite 0.5) a) v \<rparr>)"

text \<open>\<open>Segment.__getitem__\<close>: index 0 is \<open>p0\<close>, 1 and -1 are \<open>p1\<close>.\<close>

definition getitem :: "segment \<Rightarrow> int \<Rightarrow> error + npvec" where
  "getitem S idx =
     (if idx = 0 then Inr (p0 S)
      else if idx = 1 \<or> idx = - 1 then Inr (p1 S)
      else Inl IndexError)"

definition get_orthogonal_projection_onto_segment :: "segment \<Rightarrow> npvec \<Rightarrow> npvec" where
  "get_orthogonal_projection_onto_segment S point =
     (let t = ndiv (ndot (nvsub point (p0 S)) (vector S)) (nmul (seg_length S) (seg_length S))
      in nvadd (p0 S) (nvscale t (vector S)))"

definition get_angle_compatibility :: "segment \<Rightarrow> segment \<Rightarrow> npfloat" where
  "get_angle_compatibility P Q =
     nabs (np_clip (- 1) 1 (ndot (unit_vector P) (unit_vector Q)))"

definition get_scale_compatibility :: "segment \<Rightarrow> segment \<Rightarrow> npfloat" where
  "get_scale_compatibility P Q =
     (let avg = nmul (Finite 0.5) (nadd (seg_length P) (seg_length Q))
      in ndiv (Finite 2)
           (nadd (ndiv avg (py_min2 (seg_length P) (seg_length Q)))
                 (ndiv (py_max2 (seg_length P) (seg_length Q)) avg)))"

definition get_position_compatibility :: "segment \<Rightarrow> segment \<Rightarrow> npfloat" where
  "get_position_compatibility P Q =
     (let avg = nmul (Finite 0.5) (nadd (seg_length P) (seg_length Q));
          distance_between_midpoints = nnorm (nvsub (midpoint Q) (midpoint P))
      in ndiv avg (nadd avg distance_between_midpoints))"

definition get_visibility :: "segment \<Rightarrow> segment \<Rightarrow> error + npfloat" where
  "get_visibility P Q =
     ebind (getitem Q 0) (\<lambda>q0.
     ebind (getitem Q 1) (\<lambda>q1.
       let I0 = get_orthogonal_projection_onto_segment P q0;
           I1 = get_orthogonal_projection_onto_segment P q1;
           I = Segment I0 I1;
           distance_between_midpoints = nnorm (nvsub (midpoint P) (midpoint I));
           visibility = nsub (Finite 1)
                          (ndiv (nmul (Finite 2) distance_between_midpoints) (seg_length I))
       in Inr (py_max2 visibility (Finite 0))))"

definition get_visibility_compatibility :: "segment \<Rightarrow> segment \<Rightarrow> error + npfloat" where
  "get_visibility_compatibility P Q =
     ebind (get_visibility P Q) (\<lambda>a. ebind (get_visibility Q P) (\<lambda>b. Inr (py_min2 a b)))"

text \<open>
  The test that decides whether one of the two chains is walked backwards:
  \<open>min(|P[0]-Q[0]|, |P[1]-Q[1]|) > min(|P[0]-Q[1]|, |P[1]-Q[0]|)\<close>.
\<close>

definition get_reverse :: "segment \<Rightarrow> segment \<Rightarrow> error + bool" where
  "get_reverse P Q =
     ebind (getitem P 0) (\<lambda>a. ebind (getitem P 1) (\<lambda>b.
     ebind (getitem Q 0) (\<lambda>c. ebind (getitem Q 1) (\<lambda>d.
       Inr (nless (py_min2 (nnorm (nvsub a d)) (nnorm (nvsub b c)))
                  (py_min2 (nnorm (nvsub a c)) (nnorm (nvsub b d))))))))"

text \<open>
  The body of the loop of \<open>_get_edge_compatibility\<close> for one pair of segments: the score
  starts at 1 and is multiplied by the scale, position, angle and visibility factors in
  this order; after each factor a score below the threshold ends the pair (\<open>continue\<close>,
  the result \<open>None\<close>). Otherwise the pair is recorded with its score and the reverse flag.
  A score that is \<open>nan\<close> is not below the threshold.
\<close>

definition compatibility_of_pair ::
  "real \<Rightarrow> segment \<Rightarrow> segment \<Rightarrow> error + (npfloat \<times> bool) option" where
  "compatibility_of_pair threshold P Q =
     (let c1 = nmul (Finite 1) (get_scale_compatibility P Q) in
      if nless c1 (Finite threshold) then Inr None else
      let c2 = nmul c1 (get_position_compatibility P Q) in
      if nless c2 (Finite threshold) then Inr None else
      let c3 = nmul c2 (get_angle_compatibility P Q) in
      if nless c3 (Finite threshold) then Inr None else
      ebind (get_visibility_compatibility P Q) (\<lambda>f4.
        let c4 = nmul c3 f4 in
        if nless c4 (Finite threshold) then Inr None else
        ebind (get_reverse P Q) (\<lambda>reverse. Inr (Some (c4, reverse)))))"

text \<open>\<open>itertools.combinations(edges, 2)\<close>.\<close>

fun combinations2 :: "'a list \<Rightarrow> ('a \<times> 'a) list" where
  "combinations2 [] = []"
| "combinations2 (x # xs) = map (Pair x) xs @ combinations2 xs"

text \<open>A dictionary lookup \<open>d[k]\<close>.\<close>

definition lookup :: "('k \<rightharpoonup> 'v) \<Rightarrow> 'k \<Rightarrow> error + 'v" where
  "lookup d k = (case d k of None \<Rightarrow> Inl KeyError | Some v \<Rightarrow> Inr v)"

text \<open>Running a fallible function over a list, stopping at the first failure.\<close>

fun emap :: "('a \<Rightarrow> error + 'b) \<Rightarrow> 'a list \<Rightarrow> error + 'b list" where
  "emap f [] = Inr []"
| "emap f (x # xs) = ebind (f x) (\<lambda>y. ebind (emap f xs) (\<lambda>ys. Inr (y # ys)))"

text \<open>The node positions are finite.\<close>

definition segment_of_edge :: "('n \<rightharpoonup> vec) \<Rightarrow> 'n \<times> 'n \<Rightarrow> error + segment" where
  "segment_of_edge node_positions e =
     ebind (lookup node_positions (fst e)) (\<lambda>a.
     ebind (lookup node_positions (snd e)) (\<lambda>b. Inr (Segment (np_array a) (np_array b))))"

definition get_edge_compatibility ::
  "('n \<times> 'n) list \<Rightarrow> ('n \<rightharpoonup> vec) \<Rightarrow> real
     \<Rightarrow> error + (('n \<times> 'n) \<times> ('n \<times> 'n) \<times> npfloat \<times> bool) list" where
  "get_edge_compatibility edges node_positions threshold =
     ebind (emap (segment_of_edge node_positions) edges) (\<lambda>segments.
     ebind (emap (\<lambda>((e1, P), (e2, Q)).
                ebind (compatibility_of_pair threshold P Q) (\<lambda>r.
                  Inr (case r of None \<Rightarrow> [] | Some (c, reverse) \<Rightarrow> [(e1, e2, c, reverse)])))
              (combinations2 (zip edges segments)))
       (\<lambda>rows. Inr (concat rows)))"

text \<open>
  The position compatibility as the specification words it: \<open>avg / (avg + d)\<close> with \<open>d\<close>
  the distance between the geometric midpoints of the two segments.
\<close>

definition geometric_midpoint :: "segment \<Rightarrow> npvec" where
  "geometric_midpoint S = nvadd (p0 S) (nvscale (Finite 0.5) (vector S))"

definition spec_position_compatibility :: "segment \<Rightarrow> segment \<Rightarrow> npfloat" where
  "spec_position_compatibility P Q =
     (let avg = nmul (Finite 0.5) (nadd (seg_length P) (seg_length Q));
          d = nnorm (nvsub (geometric_midpoint Q) (geometric_midpoint P))
      in ndiv avg (nadd avg d))"

section \<open>Evaluating the score on concrete segments\<close>

lemma linalg_norm_x [simp]: "linalg_norm (x, 0) = \<bar>x\<bar>"
  by (simp add: linalg_norm_def)

lemma linalg_norm_y [simp]: "linalg_norm (0, y) = \<bar>y\<bar>"
  by (simp add: linalg_norm_def)

lemma getitem_0 [simp]: "getitem S 0 = Inr (p0 S)"
  by (simp add: getitem_def)

lemma getitem_1 [simp]: "getitem S 1 = Inr (p1 S)"
  by (simp add: getitem_def)

lemmas segment_eval =
  Segment_def get_orthogonal_projection_onto_segment_def get_angle_compatibility_def
  get_scale_compatibility_def get_position_compatibility_def get_visibility_def
  get_visibility_compatibility_def get_reverse_def compatibility_of_pair_def
  spec_position_compatibility_def geometric_midpoint_def
  nvadd_def nvsub_def nvscale_def nvmul_def nvdiv_def ndot_def nnorm_def nsub_def
  py_min2_def py_max2_def np_clip_def np_array_def Let_def

text \<open>
  C3. The position compatibility is \<open>avg / (avg + d)\<close>, but \<open>d\<close> is not the distance
  between the geometric midpoints: the constructor computes \<open>midpoint\<close> as the elementwise
  product \<open>p0 * 0.5 * vector\<close> where \<open>p0 + 0.5 * vector\<close> is meant. For the parallel
  segments from (0,0) to (2,0) and from (0,1) to (2,1), whose midpoints are at distance 1,
  the code returns 1 and the specified formula 2/3.
\<close>

theorem position_compatibility_midpoint_slip:
  "get_position_compatibility (Segment (np_array (0, 0)) (np_array (2, 0)))
     (Segment (np_array (0, 1)) (np_array (2, 1))) = Finite 1
   \<and> spec_position_compatibility (Segment (np_array (0, 0)) (np_array (2, 0)))
       (Segment (np_array (0, 1)) (np_array (2, 1))) = Finite (2 / 3)
   \<and> midpoint (Segment (np_array (0, 1)) (np_array (2, 1))) = np_array (0, 0)
   \<and> geometric_midpoint (Segment (np_array (0, 1)) (np_array (2, 1))) = np_array (1, 1)"
  by (simp add: segment_eval)

text \<open>
  C4. The claim is that the compatibility score is symmetric. The visibility factor is
  \<open>min(_get_visibility(P, Q), _get_visibility(Q, P))\<close>, and \<open>_get_visibility\<close> divides by
  the length of the projected interval without a guard. For the perpendicular segments
  \<open>P\<close> from (1,1) to (2,1) and \<open>Q\<close> from (0,0) to (0,1), both with distinct end points,
  that length is zero in both orders: \<open>_get_visibility(P, Q)\<close> is \<open>max(-inf, 0) = 0\<close> and
  \<open>_get_visibility(Q, P)\<close> is \<open>max(nan, 0) = nan\<close>, so the factor is \<open>min(0, nan) = 0\<close> in
  one order and \<open>min(nan, 0) = nan\<close> in the other. With the threshold 0 the pair is
  recorded with the score 0 in one order and \<open>nan\<close> in the other.
\<close>

theorem compatibility_asymmetric:
  "get_visibility (Segment (np_array (1, 1)) (np_array (2, 1)))
     (Segment (np_array (0, 0)) (np_array (0, 1))) = Inr (Finite 0)
   \<and> get_visibility (Segment (np_array (0, 0)) (np_array (0, 1)))
       (Segment (np_array (1, 1)) (np_array (2, 1))) = Inr NaN
   \<and> get_visibility_compatibility (Segment (np_array (1, 1)) (np_array (2, 1)))
       (Segment (np_array (0, 0)) (np_array (0, 1))) = Inr (Finite 0)
   \<and> get_visibility_compatibility (Segment (np_array (0, 0)) (np_array (0, 1)))
       (Segment (np_array (1, 1)) (np_array (2, 1))) = Inr NaN
   \<and> map_sum id (map_option fst)
       (compatibility_of_pair 0 (Segment (np_array (1, 1)) (np_array (2, 1)))
          (Segment (np_array (0, 0)) (np_array (0, 1)))) = Inr (Some (Finite 0))
   \<and> map_sum id (map_option fst)
       (compatibility_of_pair 0 (Segment (np_array (0, 0)) (np_array (0, 1)))
          (Segment (np_array (1, 1)) (np_array (2, 1)))) = Inr (Some NaN)"
  by (simp add: segment_eval real_sqrt_divide)

section \<open>Force-directed node layout (\<open>netgraph.py\<close>)\<close>

text \<open>
  The adjacency matrix is a list of rows, for the dense array and for the sparse matrix
  alike (the sparse solver turns each row into a dense one before it uses it). The node
  positions are an \<open>(n, 2)\<close> array. \<open>np.random.random\<close> is the function \<open>rnd\<close> from
  the row index to a point of the unit square, fixed by the seed. The iteration count is a
  natural number.
\<close>

type_synonym matrix = "real list list"

text \<open>Python's \<open>max\<close> and \<open>min\<close> of a sequence raise \<open>ValueError\<close> on an empty one.\<close>

fun py_max :: "real list \<Rightarrow> error + real" where
  "py_max [] = Inl ValueError"
| "py_max (x # xs) = Inr (fold max xs x)"

fun py_min :: "real list \<Rightarrow> error + real" where
  "py_min [] = Inl ValueError"
| "py_min (x # xs) = Inr (fold min xs x)"

definition vsum :: "vec list \<Rightarrow> vec" where
  "vsum vs = fold (\<lambda>v acc. vadd acc v) vs (0, 0)"

text \<open>
  The force on one node, row \<open>i\<close> of
  \<open>einsum('ijk,ij->ik', delta, k * k / distance**2 - A * distance / k)\<close>: \<open>Ai\<close> is row
  \<open>i\<close> of the matrix and \<open>p\<close> the position of node \<open>i\<close>. Distances are floored at 0.01.
\<close>

definition node_displacement :: "real \<Rightarrow> real list \<Rightarrow> vec list \<Rightarrow> vec \<Rightarrow> vec" where
  "node_displacement k Ai pos p =
     vsum (map (\<lambda>(a, q).
             let delta = vsub p q;
                 distance = clip_min 0.01 (linalg_norm delta)
             in smul (k * k / distance\<^sup>2 - a * distance / k) delta)
          (zip Ai pos))"

text \<open>\<open>length = np.where(length < 0.01, 0.1, length)\<close> for one row.\<close>

definition step_length :: "vec \<Rightarrow> real" where
  "step_length d = (let l = linalg_norm d in if l < 0.01 then 0.1 else l)"

text \<open>\<open>delta_pos[fixed] = 0.0\<close> with an array of row indices.\<close>

definition zero_rows :: "nat list \<Rightarrow> vec list \<Rightarrow> error + vec list" where
  "zero_rows fixed rows =
     (if list_all (\<lambda>i. i < length rows) fixed
      then Inr (map (\<lambda>i. if i \<in> set fixed then (0, 0) else rows ! i) [0..<length rows])
      else Inl IndexError)"

text \<open>
  One pass of the loop of \<open>_dense_fruchterman_reingold\<close> at temperature \<open>t\<close>. The matrix
  is \<open>n \<times> n\<close> for \<open>n\<close> positions (other shapes do not broadcast). With \<open>k = 0\<close> the
  force on every node is \<open>nan\<close>; only rows reset by \<open>fixed\<close> stay finite.
\<close>

definition dense_iteration :: "matrix \<Rightarrow> real \<Rightarrow> nat list option \<Rightarrow> real \<Rightarrow> vec list \<Rightarrow> error + vec list" where
  "dense_iteration A k fixed t pos =
     (if length A \<noteq> length pos \<or> \<not> list_all (\<lambda>Ai. length Ai = length pos) A then Inl ValueError
      else
        let displacement = map (\<lambda>(Ai, p). node_displacement k Ai pos p) (zip A pos);
            delta_pos = map (\<lambda>d. smul (t / step_length d) d) displacement
        in ebind (case fixed of None \<Rightarrow> Inr delta_pos | Some f \<Rightarrow> zero_rows f delta_pos)
             (\<lambda>delta_pos.
                if k = 0 \<and> \<not> list_all (\<lambda>i. i \<in> set (case fixed of None \<Rightarrow> [] | Some f \<Rightarrow> f))
                                 [0..<length pos]
                then Inl NonFinite
                else Inr (map (\<lambda>(p, d). vadd p d) (zip pos delta_pos))))"

text \<open>
  One pass of the loop of \<open>_sparse_fruchterman_reingold\<close>: the rows of fixed nodes are
  skipped and keep the displacement zero.
\<close>

definition sparse_iteration :: "matrix \<Rightarrow> real \<Rightarrow> nat list \<Rightarrow> real \<Rightarrow> vec list \<Rightarrow> error + vec list" where
  "sparse_iteration A k fixed t pos =
     (if length A \<noteq> length pos \<or> \<not> list_all (\<lambda>Ai. length Ai = length pos) A then Inl ValueError
      else
        let displacement =
              map (\<lambda>i. if i \<in> set fixed then (0, 0)
                        else node_displacement k (A ! i) pos (pos ! i))
                [0..<length A]
        in if k = 0 \<and> \<not> list_all (\<lambda>i. i \<in> set fixed) [0..<length pos]
           then Inl NonFinite
           else Inr (map (\<lambda>(p, d).
                       vadd p (fst d * t / step_length d, snd d * t / step_length d))
                     (zip pos displacement)))"

text \<open>
  The cooling loop shared by the two solvers: \<open>iterations\<close> passes, the temperature going
  down by \<open>dt\<close> after each. \<open>fr_states\<close> is the same loop keeping the temperature and the
  positions at the start of every pass, and the final ones.
\<close>

fun fr_loop ::
  "(real \<Rightarrow> vec list \<Rightarrow> error + vec list) \<Rightarrow> nat \<Rightarrow> real \<Rightarrow> real \<Rightarrow> vec list \<Rightarrow> error + vec list" where
  "fr_loop step 0 t dt pos = Inr pos"
| "fr_loop step (Suc n) t dt pos = ebind (step t pos) (\<lambda>pos'. fr_loop step n (t - dt) dt pos')"

fun fr_states ::
  "(real \<Rightarrow> vec list \<Rightarrow> error + vec list) \<Rightarrow> nat \<Rightarrow> real \<Rightarrow> real \<Rightarrow> vec list
     \<Rightarrow> error + (real \<times> vec list) list" where
  "fr_states step 0 t dt pos = Inr [(t, pos)]"
| "fr_states step (Suc n) t dt pos =
     ebind (step t pos) (\<lambda>pos'.
     ebind (fr_states step n (t - dt) dt pos') (\<lambda>rest. Inr ((t, pos) # rest)))"

text \<open>The spring constant: \<open>k = np.sqrt(1.0 / nnodes)\<close> when none is given.\<close>

definition default_k :: "real option \<Rightarrow> nat \<Rightarrow> error + real" where
  "default_k k nnodes =
     (case k of
        Some k' \<Rightarrow> Inr k'
      | None \<Rightarrow> if nnodes = 0 then Inl ZeroDivisionError else Inr (sqrt (1.0 / real nnodes)))"

text \<open>
  The initial temperature of the dense solver,
  \<open>max(max(pos.T[0]) - min(pos.T[0]), max(pos.T[1]) - min(pos.T[1])) * 0.1\<close>.
\<close>

definition dense_temperature :: "vec list \<Rightarrow> error + real" where
  "dense_temperature pos =
     ebind (py_max (map fst pos)) (\<lambda>x1. ebind (py_min (map fst pos)) (\<lambda>x0.
     ebind (py_max (map snd pos)) (\<lambda>y1. ebind (py_min (map snd pos)) (\<lambda>y0.
       Inr (max (x1 - x0) (y1 - y0) * 0.1)))))"

definition initial_positions :: "vec list option \<Rightarrow> nat \<Rightarrow> (nat \<Rightarrow> vec) \<Rightarrow> vec list" where
  "initial_positions pos nnodes rnd = (case pos of None \<Rightarrow> map rnd [0..<nnodes] | Some p \<Rightarrow> p)"

definition dense_fruchterman_reingold ::
  "matrix \<Rightarrow> real option \<Rightarrow> vec list option \<Rightarrow> nat list option \<Rightarrow> nat \<Rightarrow> (nat \<Rightarrow> vec)
     \<Rightarrow> error + vec list" where
  "dense_fruchterman_reingold A k pos fixed iterations rnd =
     (let nnodes = length A;
          pos = initial_positions pos nnodes rnd
      in ebind (default_k k nnodes) (\<lambda>k.
         ebind (dense_temperature pos) (\<lambda>t.
           let dt = t / real (iterations + 1)
           in fr_loop (dense_iteration A k fixed) iterations t dt pos)))"

definition sparse_fruchterman_reingold ::
  "matrix \<Rightarrow> real option \<Rightarrow> vec list option \<Rightarrow> nat list option \<Rightarrow> nat \<Rightarrow> (nat \<Rightarrow> vec)
     \<Rightarrow> error + vec list" where
  "sparse_fruchterman_reingold A k pos fixed iterations rnd =
     (let nnodes = length A;
          pos = initial_positions pos nnodes rnd;
          fixed = (case fixed of None \<Rightarrow> [] | Some f \<Rightarrow> f)
      in ebind (default_k k nnodes) (\<lambda>k.
           let t = 0.1;
               dt = t / real (iterations + 1)
           in fr_loop (sparse_iteration A k fixed) iterations t dt pos))"

text \<open>The same two solvers, keeping the state at every pass.\<close>

definition dense_states ::
  "matrix \<Rightarrow> real option \<Rightarrow> vec list option \<Rightarrow> nat list option \<Rightarrow> nat \<Rightarrow> (nat \<Rightarrow> vec)
     \<Rightarrow> error + (real \<times> vec list) list" where
  "dense_states A k pos fixed iterations rnd =
     (let nnodes = length A;
          pos = initial_positions pos nnodes rnd
      in ebind (default_k k nnodes) (\<lambda>k.
         ebind (dense_temperature pos) (\<lambda>t.
           let dt = t / real (iterations + 1)
           in fr_states (dense_iteration A k fixed) iterations t dt pos)))"

definition sparse_states ::
  "matrix \<Rightarrow> real option \<Rightarrow> vec list option \<Rightarrow> nat list option \<Rightarrow> nat \<Rightarrow> (nat \<Rightarrow> vec)
     \<Rightarrow> error + (real \<times> vec list) list" where
  "sparse_states A k pos fixed iterations rnd =
     (let nnodes = length A;
          pos = initial_positions pos nnodes rnd;
          fixed = (case fixed of None \<Rightarrow> [] | Some f \<Rightarrow> f)
      in ebind (default_k k nnodes) (\<lambda>k.
           let t = 0.1;
               dt = t / real (iterations + 1)
           in fr_states (sparse_iteration A k fixed) iterations t dt pos))"

text \<open>
  \<open>_rescale_layout\<close>: each axis is centred on its mean, and when the largest absolute
  coordinate \<open>lim\<close> is positive every coordinate is multiplied by \<open>scale / lim\<close>.
\<close>

definition mean :: "real list \<Rightarrow> real" where
  "mean xs = sum_list xs / real (length xs)"

definition rescale_layout :: "vec list \<Rightarrow> real \<Rightarrow> error + vec list" where
  "rescale_layout pos scale =
     (let xs = map (\<lambda>x. x - mean (map fst pos)) (map fst pos)
      in ebind (py_max (map abs xs)) (\<lambda>mx.
         let lim = max mx 0;
             ys = map (\<lambda>y. y - mean (map snd pos)) (map snd pos)
         in ebind (py_max (map abs ys)) (\<lambda>my.
            let lim = max my lim
            in if lim > 0
               then Inr (zip (map (\<lambda>x. x * (scale / lim)) xs) (map (\<lambda>y. y * (scale / lim)) ys))
               else Inr (zip xs ys))))"

text \<open>\<open>np.unique(edge_list)\<close>: the sorted node identifiers.\<close>

definition unique_nodes :: "('a::linorder \<times> 'a) list \<Rightarrow> 'a list" where
  "unique_nodes edge_list = sort (remdups (concat (map (\<lambda>(s, t). [s, t]) edge_list)))"

text \<open>\<open>node_to_idx = dict(zip(nodes, range(total_nodes)))\<close> and its lookup.\<close>

fun node_to_idx :: "'a list \<Rightarrow> 'a \<Rightarrow> error + nat" where
  "node_to_idx [] v = Inl KeyError"
| "node_to_idx (n # ns) v = (if n = v then Inr 0 else ebind (node_to_idx ns v) (\<lambda>i. Inr (Suc i)))"

text \<open>
  \<open>coo_matrix((weights, (sources, targets)), shape)\<close> read as a matrix: entries with the
  same row and column add up.
\<close>

definition coo_matrix :: "real list \<Rightarrow> nat list \<Rightarrow> nat list \<Rightarrow> nat \<Rightarrow> matrix" where
  "coo_matrix weights sources targets n =
     map (\<lambda>i. map (\<lambda>j. sum_list (map fst (filter (\<lambda>(w, s, t). s = i \<and> t = j)
                                          (zip weights (zip sources targets)))))
               [0..<n])
         [0..<n]"

definition edge_list_to_sparse_matrix ::
  "('a::linorder \<times> 'a) list \<Rightarrow> (('a \<times> 'a) \<times> real) list option \<Rightarrow> error + matrix" where
  "edge_list_to_sparse_matrix edge_list edge_weights =
     (let nodes = unique_nodes edge_list
      in ebind (emap (\<lambda>(source, _). node_to_idx nodes source) edge_list) (\<lambda>sources.
         ebind (emap (\<lambda>(_, target). node_to_idx nodes target) edge_list) (\<lambda>targets.
         ebind (case edge_weights of
                  Some (w # ws) \<Rightarrow> emap (lookup (map_of (w # ws))) edge_list
                | _ \<Rightarrow> Inr (map (\<lambda>_. 1) sources)) (\<lambda>weights.
           Inr (coo_matrix weights sources targets (length nodes))))))"

text \<open>
  The initial position array of the layout: a random point of the domain, replaced by the
  given position for every node that has one
  (\<open>pos_arr = np.random.random(shape) * domain_size + center\<close>, then
  \<open>pos_arr[i] = np.asarray(pos[n])\<close> for \<open>n in pos\<close>).
\<close>

definition initial_array ::
  "'a list \<Rightarrow> ('a \<times> vec) list \<Rightarrow> real \<Rightarrow> vec \<Rightarrow> (nat \<Rightarrow> vec) \<Rightarrow> vec list" where
  "initial_array nodes pos domain_size center rnd =
     map (\<lambda>(i, n). case map_of pos n of
                     Some xy \<Rightarrow> xy
                   | None \<Rightarrow> vadd (smul domain_size (rnd i)) center)
         (enumerate 0 nodes)"

text \<open>
  \<open>_fruchterman_reingold_layout\<close>. The dictionaries \<open>edge_weights\<close> and \<open>pos\<close> are lists
  of items with distinct keys, and so is the result.
\<close>

definition fruchterman_reingold_layout ::
  "('a::linorder \<times> 'a) list \<Rightarrow> (('a \<times> 'a) \<times> real) list option \<Rightarrow> real option
     \<Rightarrow> ('a \<times> vec) list option \<Rightarrow> 'a list option \<Rightarrow> nat \<Rightarrow> real \<Rightarrow> vec \<Rightarrow> (nat \<Rightarrow> vec)
     \<Rightarrow> error + ('a \<times> vec) list" where
  "fruchterman_reingold_layout edge_list edge_weights k pos fixed iterations scale center rnd =
     (let nodes = unique_nodes edge_list;
          total_nodes = length nodes
      in ebind (case fixed of
                  None \<Rightarrow> Inr None
                | Some f \<Rightarrow> ebind (emap (node_to_idx nodes) f) (\<lambda>ix. Inr (Some ix))) (\<lambda>fixed_idx.
         ebind (case pos of
                  None \<Rightarrow> Inr (None, None)
                | Some p \<Rightarrow>
                    ebind (py_max (concat (map (\<lambda>(n, xy). [fst xy, snd xy]) p))) (\<lambda>m.
                      let domain_size = (if m = 0 then 1 else m)
                      in Inr (Some domain_size,
                              Some (initial_array nodes p domain_size center rnd)))) (\<lambda>(domain_size, pos_arr).
         ebind (if k = None \<and> fixed \<noteq> None
                then (case domain_size of
                        None \<Rightarrow> Inl NameError
                      | Some ds \<Rightarrow> ebind (fdiv ds (sqrt (real total_nodes))) (\<lambda>k'. Inr (Some k')))
                else Inr k) (\<lambda>k.
         ebind (edge_list_to_sparse_matrix edge_list edge_weights) (\<lambda>A.
         ebind (if total_nodes > 500
                then sparse_fruchterman_reingold A k pos_arr fixed_idx iterations rnd
                else dense_fruchterman_reingold A k pos_arr fixed_idx iterations rnd) (\<lambda>pos.
         ebind (if fixed = None
                then ebind (rescale_layout pos scale) (\<lambda>p. Inr (map (\<lambda>xy. vadd xy center) p))
                else Inr pos) (\<lambda>pos.
           Inr (zip nodes pos))))))))"

section \<open>One pass of the solvers\<close>

lemma linalg_norm_nonneg [simp]: "0 \<le> linalg_norm a"
  by (simp add: linalg_norm_def)

lemma linalg_norm_smul: "linalg_norm (smul c a) = \<bar>c\<bar> * linalg_norm a"
proof -
  have "c * fst a * (c * fst a) + c * snd a * (c * snd a) = c\<^sup>2 * (fst a * fst a + snd a * snd a)"
    by (simp add: power2_eq_square algebra_simps)
  then show ?thesis
    by (simp add: linalg_norm_def smul_def real_sqrt_mult)
qed

lemma vsub_vadd_cancel [simp]: "vsub (vadd p d) p = d"
  by (simp add: vsub_def vadd_def)

lemma step_length_pos: "0 < step_length d"
  by (simp add: step_length_def Let_def)

text \<open>The length of a step of size \<open>t / step_length d\<close> along the force \<open>d\<close>.\<close>

lemma linalg_norm_step:
  assumes "0 \<le> t"
  shows "(0.01 \<le> linalg_norm d \<longrightarrow> linalg_norm (smul (t / step_length d) d) = t)
       \<and> (linalg_norm d < 0.01 \<longrightarrow> linalg_norm (smul (t / step_length d) d) = t * linalg_norm d / 0.1)"
proof (intro conjI impI)
  assume big: "0.01 \<le> linalg_norm d"
  then have "step_length d = linalg_norm d" and "linalg_norm d \<noteq> 0"
    by (simp_all add: step_length_def Let_def)
  with assms show "linalg_norm (smul (t / step_length d) d) = t"
    by (simp add: linalg_norm_smul)
next
  assume "linalg_norm d < 0.01"
  then have "step_length d = 0.1"
    by (simp add: step_length_def Let_def)
  then have "linalg_norm (smul (t / step_length d) d) = \<bar>t / 0.1\<bar> * linalg_norm d"
    by (simp only: linalg_norm_smul)
  also have "\<dots> = t * linalg_norm d / 0.1"
    using assms by simp
  finally show "linalg_norm (smul (t / step_length d) d) = t * linalg_norm d / 0.1" .
qed

lemma zero_rows_nth:
  assumes "zero_rows f rows = Inr rows'" and "i < length rows"
  shows "rows' ! i = (if i \<in> set f then (0, 0) else rows ! i)" and "length rows' = length rows"
  using assms by (auto simp: zero_rows_def split: if_splits)

lemma dense_iteration_length:
  assumes "dense_iteration A k fixed t pos = Inr pos'"
  shows "length pos' = length pos" and "length A = length pos"
proof -
  from assms show "length A = length pos"
    by (auto simp: dense_iteration_def split: if_splits)
  from assms show "length pos' = length pos"
    by (cases fixed)
       (auto simp: dense_iteration_def Let_def zero_rows_def split: if_splits)
qed

lemma dense_iteration_nth:
  assumes "dense_iteration A k fixed t pos = Inr pos'" and "i < length pos"
  shows "pos' ! i =
           (if i \<in> set (case fixed of None \<Rightarrow> [] | Some f \<Rightarrow> f) then pos ! i
            else vadd (pos ! i)
                   (smul (t / step_length (node_displacement k (A ! i) pos (pos ! i)))
                      (node_displacement k (A ! i) pos (pos ! i))))"
proof -
  from assms(1) have len: "length A = length pos"
    by (rule dense_iteration_length)
  show ?thesis
  proof (cases fixed)
    case None
    with assms len show ?thesis
      by (auto simp: dense_iteration_def Let_def split: if_splits)
  next
    case (Some f)
    with assms len show ?thesis
      by (auto simp: dense_iteration_def Let_def zero_rows_def vadd_def split: if_splits)
  qed
qed

lemma sparse_iteration_length:
  assumes "sparse_iteration A k fixed t pos = Inr pos'"
  shows "length pos' = length pos" and "length A = length pos"
  using assms by (auto simp: sparse_iteration_def Let_def split: if_splits)

lemma sparse_iteration_nth:
  assumes "sparse_iteration A k fixed t pos = Inr pos'" and "i < length pos"
  shows "pos' ! i =
           (if i \<in> set fixed then pos ! i
            else vadd (pos ! i)
                   (smul (t / step_length (node_displacement k (A ! i) pos (pos ! i)))
                      (node_displacement k (A ! i) pos (pos ! i))))"
  using assms
  by (auto simp: sparse_iteration_def Let_def vadd_def smul_def step_length_def split: if_splits)

section \<open>The cooling loop\<close>

lemma ebind_eq_Inr: "(ebind m f = Inr y) = (\<exists>x. m = Inr x \<and> f x = Inr y)"
  by (cases m) auto

lemma fr_states_hd:
  "fr_states step n t dt pos = Inr sts \<Longrightarrow> sts \<noteq> [] \<and> hd sts = (t, pos)"
  by (cases n) (auto simp: ebind_eq_Inr)

lemma fr_loop_states:
  "fr_states step n t dt pos = Inr sts \<Longrightarrow> fr_loop step n t dt pos = Inr (snd (last sts))"
proof (induction n arbitrary: t pos sts)
  case 0
  then show ?case by auto
next
  case (Suc n)
  from Suc.prems obtain pos' rest where
    step: "step t pos = Inr pos'" and
    rest: "fr_states step n (t - dt) dt pos' = Inr rest" and
    sts: "sts = (t, pos) # rest"
    by (auto simp: ebind_eq_Inr)
  from rest have "rest \<noteq> []"
    by (simp add: fr_states_hd)
  with Suc.IH [OF rest] step sts show ?case by simp
qed

lemma fr_states_step:
  "fr_states step n t dt pos = Inr sts \<Longrightarrow> Suc j < length sts \<Longrightarrow>
     fst (sts ! j) = t - real j * dt
     \<and> j < n
     \<and> step (fst (sts ! j)) (snd (sts ! j)) = Inr (snd (sts ! Suc j))"
proof (induction n arbitrary: t pos sts j)
  case 0
  then show ?case by auto
next
  case (Suc n)
  from Suc.prems(1) obtain pos' rest where
    step: "step t pos = Inr pos'" and
    rest: "fr_states step n (t - dt) dt pos' = Inr rest" and
    sts: "sts = (t, pos) # rest"
    by (auto simp: ebind_eq_Inr)
  from rest have hd_rest: "rest \<noteq> [] \<and> hd rest = (t - dt, pos')"
    by (rule fr_states_hd)
  show ?case
  proof (cases j)
    case 0
    with step sts hd_rest show ?thesis
      by (cases rest) auto
  next
    case (Suc j')
    with Suc.prems(2) sts have "Suc j' < length rest" by simp
    from Suc.IH [OF rest this] Suc sts show ?thesis
      by (simp add: algebra_simps)
  qed
qed

lemma temperature_nonneg:
  assumes "0 \<le> t0" and "j < n"
  shows "0 \<le> t0 - real j * (t0 / real (n + 1))"
proof -
  have "real j * (t0 / real (n + 1)) = t0 * (real j / real (n + 1))"
    by simp
  moreover have "real j / real (n + 1) \<le> 1"
    using assms(2) by simp
  ultimately have "real j * (t0 / real (n + 1)) \<le> t0 * 1"
    using assms(1) by (simp only: mult_left_mono)
  then show ?thesis by simp
qed

lemma py_max_ge: "py_max xs = Inr M \<Longrightarrow> x \<in> set xs \<Longrightarrow> x \<le> M"
proof (cases xs)
  case Nil
  assume "x \<in> set xs" with Nil show ?thesis by simp
next
  case (Cons y ys)
  assume "py_max xs = Inr M" and x: "x \<in> set xs"
  with Cons have "M = Max (set (y # ys))"
    by (simp only: py_max.simps Max.set_eq_fold sum.inject)
  with x Cons show ?thesis by simp
qed


lemma py_min_mem: "py_min xs = Inr m \<Longrightarrow> m \<in> set xs"
proof (cases xs)
  case Nil
  assume "py_min xs = Inr m" with Nil show ?thesis by simp
next
  case (Cons y ys)
  assume "py_min xs = Inr m"
  with Cons have "m = Min (set (y # ys))"
    by (simp only: py_min.simps Min.set_eq_fold sum.inject)
  with Cons show ?thesis
    using Min_in [of "set (y # ys)"] by simp
qed

lemma py_min_le_py_max:
  assumes "py_max xs = Inr M" and "py_min xs = Inr m"
  shows "m \<le> M"
  using py_max_ge [OF assms(1) py_min_mem [OF assms(2)]] .

lemma dense_temperature_nonneg:
  assumes "dense_temperature pos = Inr t"
  shows "0 \<le> t"
proof -
  from assms obtain x1 x0 y1 y0 where
    x: "py_max (map fst pos) = Inr x1" "py_min (map fst pos) = Inr x0" and
    t: "max (x1 - x0) (y1 - y0) * 0.1 = t"
    unfolding dense_temperature_def ebind_eq_Inr by blast
  from x have "x0 \<le> x1" by (rule py_min_le_py_max)
  with t show ?thesis by auto
qed

lemma fr_states_length: "fr_states step n t dt pos = Inr sts \<Longrightarrow> length sts = Suc n"
proof (induction n arbitrary: t pos sts)
  case 0
  then show ?case by auto
next
  case (Suc n)
  from Suc.prems obtain pos' rest where
    rest: "fr_states step n (t - dt) dt pos' = Inr rest" and sts: "sts = (t, pos) # rest"
    by (auto simp: ebind_eq_Inr)
  from Suc.IH [OF rest] sts show ?case by simp
qed

lemma fr_loop_has_states:
  "fr_loop step n t dt pos = Inr result \<Longrightarrow>
     \<exists>sts. fr_states step n t dt pos = Inr sts \<and> snd (last sts) = result"
proof (induction n arbitrary: t pos)
  case 0
  then show ?case by auto
next
  case (Suc n)
  from Suc.prems obtain pos' where step: "step t pos = Inr pos'"
    and rest: "fr_loop step n (t - dt) dt pos' = Inr result"
    by (auto simp: ebind_eq_Inr)
  from Suc.IH [OF rest] obtain sts where
    sts: "fr_states step n (t - dt) dt pos' = Inr sts" and l: "snd (last sts) = result"
    by blast
  from sts have "sts \<noteq> []" by (simp add: fr_states_hd)
  with step sts l show ?case by simp
qed

text \<open>
  The trace of a run of the cooling loop: it has one state for the start of every pass
  and one for the end, it begins with the initial temperature and positions and ends
  with the positions the loop returns, the temperature goes down by \<open>dt\<close> with every pass,
  and each state comes from the one before by one pass.
\<close>

lemma fr_loop_trace:
  assumes "fr_loop step n t dt pos = Inr result"
  shows "\<exists>sts. fr_states step n t dt pos = Inr sts \<and> length sts = Suc n
           \<and> hd sts = (t, pos) \<and> snd (last sts) = result
           \<and> (\<forall>j<n. fst (sts ! j) = t - real j * dt
                     \<and> step (fst (sts ! j)) (snd (sts ! j)) = Inr (snd (sts ! Suc j)))"
proof -
  from fr_loop_has_states [OF assms] obtain sts where
    sts: "fr_states step n t dt pos = Inr sts" and l: "snd (last sts) = result"
    by blast
  note len = fr_states_length [OF sts]
  have "fst (sts ! j) = t - real j * dt
        \<and> step (fst (sts ! j)) (snd (sts ! j)) = Inr (snd (sts ! Suc j))" if "j < n" for j
  proof -
    from that len have "Suc j < length sts" by simp
    from fr_states_step [OF sts this] show ?thesis by blast
  qed
  with sts len l fr_states_hd [OF sts] show ?thesis by blast
qed

text \<open>
  C10. A run of the dense solver, and of the sparse solver, goes through one state for
  every pass: \<open>sts\<close> holds the temperature and the positions at the start of each pass and
  the final ones, it has \<open>iterations + 1\<close> states, starts from the initial positions at
  the temperature \<open>t0\<close> (a tenth of the extent for the dense solver, 0.1 for the sparse
  one), every state comes from the one before by one pass of the solver at the temperature
  \<open>t0 - j * t0 / (iterations + 1)\<close>, and the last positions are the ones the solver
  returns. In each pass a node that is not fixed and whose net force has norm at least
  0.01 moves by exactly the current temperature, whatever the size of the force; a node
  whose net force has norm \<open>L < 0.01\<close> moves by \<open>t * L / 0.1\<close>. \<open>k'\<close> is the spring
  constant in use.
\<close>

theorem displacement_equals_temperature:
  assumes "dense_fruchterman_reingold A k pos fixed iterations rnd = Inr result
             \<and> trace = dense_states A k pos fixed iterations rnd
             \<and> pass = dense_iteration A k' fixed
             \<and> dense_temperature (initial_positions pos (length A) rnd) = Inr t0
           \<or> sparse_fruchterman_reingold A k pos fixed iterations rnd = Inr result
             \<and> trace = sparse_states A k pos fixed iterations rnd
             \<and> pass = sparse_iteration A k' (case fixed of None \<Rightarrow> [] | Some f \<Rightarrow> f)
             \<and> t0 = 0.1"
    and "default_k k (length A) = Inr k'"
  shows "\<exists>sts. trace = Inr sts \<and> length sts = Suc iterations
           \<and> hd sts = (t0, initial_positions pos (length A) rnd)
           \<and> snd (last sts) = result
           \<and> (\<forall>j<iterations.
                fst (sts ! j) = t0 - real j * (t0 / real (iterations + 1))
                \<and> pass (fst (sts ! j)) (snd (sts ! j)) = Inr (snd (sts ! Suc j))
                \<and> (\<forall>i<length A. i \<notin> set (case fixed of None \<Rightarrow> [] | Some f \<Rightarrow> f) \<longrightarrow>
                      (0.01 \<le> linalg_norm (node_displacement k' (A ! i) (snd (sts ! j))
                                              (snd (sts ! j) ! i)) \<longrightarrow>
                         linalg_norm (vsub (snd (sts ! Suc j) ! i) (snd (sts ! j) ! i))
                         = fst (sts ! j))
                    \<and> (linalg_norm (node_displacement k' (A ! i) (snd (sts ! j))
                                      (snd (sts ! j) ! i)) < 0.01 \<longrightarrow>
                         linalg_norm (vsub (snd (sts ! Suc j) ! i) (snd (sts ! j) ! i))
                         = fst (sts ! j)
                           * linalg_norm (node_displacement k' (A ! i) (snd (sts ! j))
                                            (snd (sts ! j) ! i)) / 0.1)))"
proof -
  define start where "start = initial_positions pos (length A) rnd"
  define fx where "fx = (case fixed of None \<Rightarrow> [] | Some f \<Rightarrow> f)"
  from assms have loop: "fr_loop pass iterations t0 (t0 / real (iterations + 1)) start = Inr result"
    and tr: "trace = fr_states pass iterations t0 (t0 / real (iterations + 1)) start"
    and t0: "0 \<le> t0"
    and pass: "\<And>t p p' i. pass t p = Inr p' \<Longrightarrow> i < length A \<Longrightarrow> i \<notin> set fx \<Longrightarrow>
                 p' ! i = vadd (p ! i)
                            (smul (t / step_length (node_displacement k' (A ! i) p (p ! i)))
                               (node_displacement k' (A ! i) p (p ! i)))"
  proof -
    from assms(1) have
      "fr_loop pass iterations t0 (t0 / real (iterations + 1)) start = Inr result
       \<and> trace = fr_states pass iterations t0 (t0 / real (iterations + 1)) start
       \<and> 0 \<le> t0
       \<and> (\<forall>t p p' i. pass t p = Inr p' \<longrightarrow> i < length A \<longrightarrow> i \<notin> set fx \<longrightarrow>
                 p' ! i = vadd (p ! i)
                            (smul (t / step_length (node_displacement k' (A ! i) p (p ! i)))
                               (node_displacement k' (A ! i) p (p ! i))))"
    proof (elim disjE conjE)
      assume run: "dense_fruchterman_reingold A k pos fixed iterations rnd = Inr result"
        and trace: "trace = dense_states A k pos fixed iterations rnd"
        and p: "pass = dense_iteration A k' fixed"
        and t: "dense_temperature (initial_positions pos (length A) rnd) = Inr t0"
      have "pass t p = Inr p' \<longrightarrow> i < length A \<longrightarrow> i \<notin> set fx \<longrightarrow>
                 p' ! i = vadd (p ! i)
                            (smul (t / step_length (node_displacement k' (A ! i) p (p ! i)))
                               (node_displacement k' (A ! i) p (p ! i)))" for t p p' i
      proof (intro impI)
        assume s: "pass t p = Inr p'" and i: "i < length A" and nf: "i \<notin> set fx"
        from s have s': "dense_iteration A k' fixed t p = Inr p'" by (simp only: p)
        from dense_iteration_length(2) [OF s'] i have "i < length p" by simp
        from dense_iteration_nth [OF s' this] nf
        show "p' ! i = vadd (p ! i)
                            (smul (t / step_length (node_displacement k' (A ! i) p (p ! i)))
                               (node_displacement k' (A ! i) p (p ! i)))"
          by (simp only: fx_def if_False)
      qed
      moreover from run t assms(2) have
        "fr_loop pass iterations t0 (t0 / real (iterations + 1)) start = Inr result"
        by (simp add: dense_fruchterman_reingold_def Let_def p start_def)
      moreover from trace t assms(2) have
        "trace = fr_states pass iterations t0 (t0 / real (iterations + 1)) start"
        by (simp add: dense_states_def Let_def p start_def)
      moreover from t have "0 \<le> t0" by (rule dense_temperature_nonneg)
      ultimately show ?thesis by blast
    next
      assume run: "sparse_fruchterman_reingold A k pos fixed iterations rnd = Inr result"
        and trace: "trace = sparse_states A k pos fixed iterations rnd"
        and p: "pass = sparse_iteration A k' (case fixed of None \<Rightarrow> [] | Some f \<Rightarrow> f)"
        and t: "t0 = 0.1"
      have "pass t p = Inr p' \<longrightarrow> i < length A \<longrightarrow> i \<notin> set fx \<longrightarrow>
                 p' ! i = vadd (p ! i)
                            (smul (t / step_length (node_displacement k' (A ! i) p (p ! i)))
                               (node_displacement k' (A ! i) p (p ! i)))" for t p p' i
      proof (intro impI)
        assume s: "pass t p = Inr p'" and i: "i < length A" and nf: "i \<notin> set fx"
        from s have s': "sparse_iteration A k' fx t p = Inr p'" by (simp only: p fx_def)
        from sparse_iteration_length(2) [OF s'] i have "i < length p" by simp
        from sparse_iteration_nth [OF s' this] nf
        show "p' ! i = vadd (p ! i)
                            (smul (t / step_length (node_displacement k' (A ! i) p (p ! i)))
                               (node_displacement k' (A ! i) p (p ! i)))"
          by (simp only: if_False)
      qed
      moreover from run assms(2) have
        "fr_loop pass iterations t0 (t0 / real (iterations + 1)) start = Inr result"
        unfolding t by (simp add: sparse_fruchterman_reingold_def Let_def p start_def)
      moreover from trace assms(2) have
        "trace = fr_states pass iterations t0 (t0 / real (iterations + 1)) start"
        unfolding t by (simp add: sparse_states_def Let_def p start_def)
      moreover from t have "0 \<le> t0" by simp
      ultimately show ?thesis by blast
    qed
    then show "fr_loop pass iterations t0 (t0 / real (iterations + 1)) start = Inr result"
      and "trace = fr_states pass iterations t0 (t0 / real (iterations + 1)) start"
      and "0 \<le> t0"
      and "\<And>t p p' i. pass t p = Inr p' \<Longrightarrow> i < length A \<Longrightarrow> i \<notin> set fx \<Longrightarrow>
                 p' ! i = vadd (p ! i)
                            (smul (t / step_length (node_displacement k' (A ! i) p (p ! i)))
                               (node_displacement k' (A ! i) p (p ! i)))"
      by blast+
  qed
  from fr_loop_trace [OF loop] obtain sts where
    sts: "fr_states pass iterations t0 (t0 / real (iterations + 1)) start = Inr sts"
    and len: "length sts = Suc iterations" and hd: "hd sts = (t0, start)"
    and l: "snd (last sts) = result"
    and steps: "\<And>j. j < iterations \<Longrightarrow>
                  fst (sts ! j) = t0 - real j * (t0 / real (iterations + 1))
                  \<and> pass (fst (sts ! j)) (snd (sts ! j)) = Inr (snd (sts ! Suc j))"
    by blast
  have rule: "(0.01 \<le> linalg_norm (node_displacement k' (A ! i) (snd (sts ! j))
                                              (snd (sts ! j) ! i)) \<longrightarrow>
                         linalg_norm (vsub (snd (sts ! Suc j) ! i) (snd (sts ! j) ! i))
                         = fst (sts ! j))
                    \<and> (linalg_norm (node_displacement k' (A ! i) (snd (sts ! j))
                                      (snd (sts ! j) ! i)) < 0.01 \<longrightarrow>
                         linalg_norm (vsub (snd (sts ! Suc j) ! i) (snd (sts ! j) ! i))
                         = fst (sts ! j)
                           * linalg_norm (node_displacement k' (A ! i) (snd (sts ! j))
                                            (snd (sts ! j) ! i)) / 0.1)"
    if j: "j < iterations" and i: "i < length A" and nf: "i \<notin> set fx" for j i
  proof -
    from steps [OF j] have t: "fst (sts ! j) = t0 - real j * (t0 / real (iterations + 1))"
      and s: "pass (fst (sts ! j)) (snd (sts ! j)) = Inr (snd (sts ! Suc j))"
      by blast+
    from t0 j have "0 \<le> fst (sts ! j)"
      unfolding t by (rule temperature_nonneg)
    from linalg_norm_step [OF this] pass [OF s i nf] show ?thesis
      by simp
  qed
  from tr sts len hd l steps rule show ?thesis
    unfolding start_def fx_def by blast
qed

lemmas solver_eval =
  dense_fruchterman_reingold_def sparse_fruchterman_reingold_def dense_states_def
  sparse_states_def initial_positions_def default_k_def dense_temperature_def
  dense_iteration_def sparse_iteration_def node_displacement_def vsum_def step_length_def
  clip_min_def vsub_def vadd_def smul_def Let_def

lemma dense_run_example:
  "dense_fruchterman_reingold [[0, 1], [0, 0]] (Some 1) (Some [(0, 0), (2, 0)]) None 1
     (\<lambda>_. (0, 0)) = Inr [(0.2, 0), (2.2, 0)]"
  "dense_states [[0, 1], [0, 0]] (Some 1) (Some [(0, 0), (2, 0)]) None 1 (\<lambda>_. (0, 0))
     = Inr [(0.2, [(0, 0), (2, 0)]), (0.1, [(0.2, 0), (2.2, 0)])]"
  "dense_temperature (initial_positions (Some [(0, 0), (2, 0)]) (length [[0, 1], [0, 0::real]])
     (\<lambda>_. (0, 0))) = Inr 0.2"
  "node_displacement 1 [0, 1] [(0, 0), (2, 0)] (0, 0) = (3.5, 0)"
  by (simp_all add: solver_eval)

lemma sparse_run_example:
  "sparse_fruchterman_reingold [[0, 0], [0, 0]] (Some 0.1) (Some [(0, 0), (2, 0)]) None 1
     (\<lambda>_. (0, 0)) = Inr [(- 0.005, 0), (2.005, 0)]"
  "sparse_states [[0, 0], [0, 0]] (Some 0.1) (Some [(0, 0), (2, 0)]) None 1 (\<lambda>_. (0, 0))
     = Inr [(0.1, [(0, 0), (2, 0)]), (0.05, [(- 0.005, 0), (2.005, 0)])]"
  "node_displacement 0.1 [0, 0] [(0, 0), (2, 0)] (0, 0) = (- 0.005, 0)"
  by (simp_all add: solver_eval upt_rec)

theorem displacement_equals_temperature_witness:
  "dense_fruchterman_reingold [[0, 1], [0, 0]] (Some 1) (Some [(0, 0), (2, 0)]) None 1
     (\<lambda>_. (0, 0)) = Inr [(0.2, 0), (2.2, 0)]
   \<and> linalg_norm (node_displacement 1 [0, 1] [(0, 0), (2, 0)] (0, 0)) = 3.5
   \<and> linalg_norm (vsub (0.2, 0) (0, 0)) = 0.2
   \<and> sparse_fruchterman_reingold [[0, 0], [0, 0]] (Some 0.1) (Some [(0, 0), (2, 0)]) None 1
        (\<lambda>_. (0, 0)) = Inr [(- 0.005, 0), (2.005, 0)]
   \<and> linalg_norm (node_displacement 0.1 [0, 0] [(0, 0), (2, 0)] (0, 0)) = 0.005
   \<and> linalg_norm (vsub (- 0.005, 0) (0, 0)) = 0.1 * 0.005 / 0.1"
proof -
  let ?A = "[[0, 1], [0, 0::real]]" and ?B = "[[0, 0], [0, 0::real]]"
  let ?pos = "Some [(0, 0), (2, 0)] :: vec list option" and ?rnd = "\<lambda>_::nat. (0::real, 0::real)"
  have k: "default_k (Some 1) (length ?A) = Inr 1" "default_k (Some 0.1) (length ?B) = Inr 0.1"
    by (simp_all add: default_k_def)
  from displacement_equals_temperature [of ?A "Some 1" ?pos None 1 ?rnd
      "[(0.2, 0), (2.2, 0)]" "dense_states ?A (Some 1) ?pos None 1 ?rnd"
      "dense_iteration ?A 1 None" 1 "0.2", OF _ k(1)] dense_run_example
  obtain sts where s: "sts = [(0.2, [(0, 0), (2, 0)]), (0.1, [(0.2, 0), (2.2, 0)])]"
    and r: "\<forall>j<1. \<forall>i<length ?A. i \<notin> set (case None of None \<Rightarrow> [] | Some f \<Rightarrow> f) \<longrightarrow>
           (0.01 \<le> linalg_norm (node_displacement 1 (?A ! i) (snd (sts ! j))
                                              (snd (sts ! j) ! i)) \<longrightarrow>
                         linalg_norm (vsub (snd (sts ! Suc j) ! i) (snd (sts ! j) ! i))
                         = fst (sts ! j))"
    by auto
  from r [rule_format, of 0 0] s dense_run_example(4)
  have dense: "linalg_norm (vsub (0.2, 0) (0, 0)) = 0.2"
    by (simp add: vsub_def)
  from displacement_equals_temperature [of ?B "Some 0.1" ?pos None 1 ?rnd
      "[(- 0.005, 0), (2.005, 0)]" "sparse_states ?B (Some 0.1) ?pos None 1 ?rnd"
      "sparse_iteration ?B 0.1 (case None of None \<Rightarrow> [] | Some f \<Rightarrow> f)" "0.1" "0.1", OF _ k(2)]
    sparse_run_example
  obtain sts' where s': "sts' = [(0.1, [(0, 0), (2, 0)]), (0.05, [(- 0.005, 0), (2.005, 0)])]"
    and r': "\<forall>j<1. \<forall>i<length ?B. i \<notin> set (case None of None \<Rightarrow> [] | Some f \<Rightarrow> f) \<longrightarrow>
           (linalg_norm (node_displacement 0.1 (?B ! i) (snd (sts' ! j))
                                      (snd (sts' ! j) ! i)) < 0.01 \<longrightarrow>
                         linalg_norm (vsub (snd (sts' ! Suc j) ! i) (snd (sts' ! j) ! i))
                         = fst (sts' ! j)
                           * linalg_norm (node_displacement 0.1 (?B ! i) (snd (sts' ! j))
                                            (snd (sts' ! j) ! i)) / 0.1)"
    by auto
  from r' [rule_format, of 0 0] s' sparse_run_example(3)
  have sparse: "linalg_norm (vsub (- 0.005, 0) (0, 0)) = 0.1 * 0.005 / 0.1"
    by (simp add: vsub_def)
  from dense sparse dense_run_example sparse_run_example show ?thesis
    by simp
qed

lemma fr_loop_keeps_row:
  assumes "\<And>t p p'. step t p = Inr p' \<Longrightarrow> length p' = length p \<and> (i < length p \<longrightarrow> p' ! i = p ! i)"
  shows "fr_loop step n t dt pos = Inr pos' \<Longrightarrow>
           length pos' = length pos \<and> (i < length pos \<longrightarrow> pos' ! i = pos ! i)"
proof (induction n arbitrary: t pos)
  case 0
  then show ?case by simp
next
  case (Suc n)
  from Suc.prems obtain q where
    q: "step t pos = Inr q" and rest: "fr_loop step n (t - dt) dt q = Inr pos'"
    by (auto simp: ebind_eq_Inr)
  from assms [OF q] Suc.IH [OF rest] show ?case by simp
qed

lemma fr_loop_length:
  assumes "\<And>t p p'. step t p = Inr p' \<Longrightarrow> length p' = length p"
  shows "fr_loop step n t dt pos = Inr pos' \<Longrightarrow> length pos' = length pos"
proof (induction n arbitrary: t pos)
  case 0
  then show ?case by simp
next
  case (Suc n)
  from Suc.prems obtain q where
    q: "step t pos = Inr q" and rest: "fr_loop step n (t - dt) dt q = Inr pos'"
    by (auto simp: ebind_eq_Inr)
  from assms [OF q] Suc.IH [OF rest] show ?case by simp
qed

lemma dense_keeps_fixed:
  assumes "dense_fruchterman_reingold A k (Some p) (Some f) iterations rnd = Inr p'"
  shows "length p' = length p \<and> (i \<in> set f \<and> i < length p \<longrightarrow> p' ! i = p ! i)"
proof -
  from assms obtain k' t where
    run: "fr_loop (dense_iteration A k' (Some f)) iterations t (t / real (iterations + 1)) p = Inr p'"
    by (auto simp: dense_fruchterman_reingold_def initial_positions_def Let_def ebind_eq_Inr)
  have len: "length p' = length p"
    using run by (rule fr_loop_length [rotated]) (rule dense_iteration_length(1))
  show ?thesis
  proof (cases "i \<in> set f")
    case True
    have "\<And>t q q'. dense_iteration A k' (Some f) t q = Inr q' \<Longrightarrow>
            length q' = length q \<and> (i < length q \<longrightarrow> q' ! i = q ! i)"
      using True by (simp add: dense_iteration_length(1) dense_iteration_nth)
    from fr_loop_keeps_row [of "dense_iteration A k' (Some f)" i, OF this run]
    show ?thesis by simp
  next
    case False
    with len show ?thesis by simp
  qed
qed

lemma sparse_keeps_fixed:
  assumes "sparse_fruchterman_reingold A k (Some p) (Some f) iterations rnd = Inr p'"
  shows "length p' = length p \<and> (i \<in> set f \<and> i < length p \<longrightarrow> p' ! i = p ! i)"
proof -
  from assms obtain k' where
    run: "fr_loop (sparse_iteration A k' f) iterations 0.1 (0.1 / real (iterations + 1)) p = Inr p'"
    by (auto simp: sparse_fruchterman_reingold_def initial_positions_def Let_def ebind_eq_Inr)
  have len: "length p' = length p"
    using run by (rule fr_loop_length [rotated]) (rule sparse_iteration_length(1))
  show ?thesis
  proof (cases "i \<in> set f")
    case True
    have "\<And>t q q'. sparse_iteration A k' f t q = Inr q' \<Longrightarrow>
            length q' = length q \<and> (i < length q \<longrightarrow> q' ! i = q ! i)"
      using True by (simp add: sparse_iteration_length(1) sparse_iteration_nth)
    from fr_loop_keeps_row [of "sparse_iteration A k' f" i, OF this run]
    show ?thesis by simp
  next
    case False
    with len show ?thesis by simp
  qed
qed

lemma node_to_idx_Inr: "node_to_idx nodes v = Inr i \<Longrightarrow> i < length nodes \<and> nodes ! i = v"
proof (induction nodes arbitrary: i)
  case Nil
  then show ?case by simp
next
  case (Cons n ns)
  show ?case
  proof (cases "n = v")
    case True
    with Cons.prems show ?thesis by simp
  next
    case False
    with Cons.prems obtain j where "node_to_idx ns v = Inr j" and "i = Suc j"
      by (auto simp: ebind_eq_Inr)
    with Cons.IH [of j] show ?thesis by simp
  qed
qed

lemma emap_Inr_mem:
  "emap f xs = Inr ys \<Longrightarrow> x \<in> set xs \<Longrightarrow> \<exists>y\<in>set ys. f x = Inr y"
proof (induction xs arbitrary: ys)
  case Nil
  then show ?case by simp
next
  case (Cons a xs)
  from Cons.prems(1) obtain b bs where
    "f a = Inr b" and "emap f xs = Inr bs" and "ys = b # bs"
    by (auto simp: ebind_eq_Inr)
  with Cons.IH [of bs] Cons.prems(2) show ?case by auto
qed

lemma distinct_unique_nodes: "distinct (unique_nodes edge_list)"
  by (simp add: unique_nodes_def)

lemma map_of_zip_nth:
  "length xs = length ys \<Longrightarrow> distinct xs \<Longrightarrow> i < length xs \<Longrightarrow>
     map_of (zip xs ys) (xs ! i) = Some (ys ! i)"
proof (induction xs ys arbitrary: i rule: list_induct2)
  case Nil
  then show ?case by simp
next
  case (Cons x xs y ys)
  then show ?case by (cases i) auto
qed

lemma layout_fixed_result:
  assumes "fruchterman_reingold_layout edge_list edge_weights k (Some pos) (Some fixed)
             iterations scale center rnd = Inr result"
  shows "\<exists>ix m A k' pos'.
    emap (node_to_idx (unique_nodes edge_list)) fixed = Inr ix
    \<and> (dense_fruchterman_reingold A k'
          (Some (initial_array (unique_nodes edge_list) pos m center rnd))
          (Some ix) iterations rnd = Inr pos'
       \<or> sparse_fruchterman_reingold A k'
          (Some (initial_array (unique_nodes edge_list) pos m center rnd))
          (Some ix) iterations rnd = Inr pos')
    \<and> result = zip (unique_nodes edge_list) pos'"
  using assms
  unfolding fruchterman_reingold_layout_def Let_def
  apply (cases "500 < length (unique_nodes edge_list)")
   apply (auto simp: ebind_eq_Inr split: prod.splits)
   apply blast+
  done

lemma initial_array_nth:
  "i < length nodes \<Longrightarrow>
     initial_array nodes pos m center rnd ! i =
       (case map_of pos (nodes ! i) of Some xy \<Rightarrow> xy | None \<Rightarrow> vadd (smul m (rnd i)) center)"
  by (simp add: initial_array_def nth_enumerate_eq)

lemma length_initial_array [simp]: "length (initial_array nodes pos m center rnd) = length nodes"
  by (simp add: initial_array_def)

text \<open>
  C6. A node of the fixed set whose position is given is returned at exactly that
  position by the layout, fixed nodes are moved by no pass of the dense or of the sparse
  solver, and with a fixed set the result does not depend on the requested scale (the
  rescaling step is skipped).
\<close>

theorem fixed_nodes_keep_position:
  "(fruchterman_reingold_layout edge_list edge_weights k (Some pos) (Some fixed)
        iterations scale center rnd = Inr result
      \<and> v \<in> set fixed \<and> map_of pos v = Some xy
      \<longrightarrow> map_of result v = Some xy)
   \<and> (dense_fruchterman_reingold A k' (Some p) (Some f) iterations rnd = Inr p'
      \<and> i \<in> set f \<and> i < length p \<longrightarrow> p' ! i = p ! i)
   \<and> (sparse_fruchterman_reingold A k' (Some p) (Some f) iterations rnd = Inr p'
      \<and> i \<in> set f \<and> i < length p \<longrightarrow> p' ! i = p ! i)
   \<and> fruchterman_reingold_layout edge_list edge_weights k pos0 (Some fixed)
        iterations scale center rnd
      = fruchterman_reingold_layout edge_list edge_weights k pos0 (Some fixed)
        iterations scale' center rnd"
proof (intro conjI impI)
  assume a: "fruchterman_reingold_layout edge_list edge_weights k (Some pos) (Some fixed)
        iterations scale center rnd = Inr result
      \<and> v \<in> set fixed \<and> map_of pos v = Some xy"
  define nodes where "nodes = unique_nodes edge_list"
  from a layout_fixed_result [of edge_list edge_weights k pos fixed iterations scale center rnd result]
  obtain ix m B kk q where
    ix: "emap (node_to_idx nodes) fixed = Inr ix" and
    run: "dense_fruchterman_reingold B kk (Some (initial_array nodes pos m center rnd))
            (Some ix) iterations rnd = Inr q
          \<or> sparse_fruchterman_reingold B kk (Some (initial_array nodes pos m center rnd))
            (Some ix) iterations rnd = Inr q" and
    res: "result = zip nodes q"
    unfolding nodes_def by blast
  from a emap_Inr_mem [OF ix, of v] obtain j where
    j: "j \<in> set ix" "node_to_idx nodes v = Inr j"
    by blast
  from node_to_idx_Inr [OF j(2)] have jn: "j < length nodes" "nodes ! j = v"
    by simp_all
  from run have keep: "length q = length nodes \<and> q ! j = initial_array nodes pos m center rnd ! j"
  proof
    assume "dense_fruchterman_reingold B kk (Some (initial_array nodes pos m center rnd))
            (Some ix) iterations rnd = Inr q"
    from dense_keeps_fixed [OF this, of j] j(1) jn(1) show ?thesis by simp
  next
    assume "sparse_fruchterman_reingold B kk (Some (initial_array nodes pos m center rnd))
            (Some ix) iterations rnd = Inr q"
    from sparse_keeps_fixed [OF this, of j] j(1) jn(1) show ?thesis by simp
  qed
  with a jn have "q ! j = xy"
    by (simp add: initial_array_nth)
  moreover have "map_of (zip nodes q) (nodes ! j) = Some (q ! j)"
    using keep jn(1) by (intro map_of_zip_nth) (simp_all add: nodes_def distinct_unique_nodes)
  ultimately show "map_of result v = Some xy"
    using res jn(2) by simp
next
  assume "dense_fruchterman_reingold A k' (Some p) (Some f) iterations rnd = Inr p'
      \<and> i \<in> set f \<and> i < length p"
  with dense_keeps_fixed [of A k' p f iterations rnd p' i] show "p' ! i = p ! i"
    by simp
next
  assume "sparse_fruchterman_reingold A k' (Some p) (Some f) iterations rnd = Inr p'
      \<and> i \<in> set f \<and> i < length p"
  with sparse_keeps_fixed [of A k' p f iterations rnd p' i] show "p' ! i = p ! i"
    by simp
next
  show "fruchterman_reingold_layout edge_list edge_weights k pos0 (Some fixed)
        iterations scale center rnd
      = fruchterman_reingold_layout edge_list edge_weights k pos0 (Some fixed)
        iterations scale' center rnd"
    by (simp add: fruchterman_reingold_layout_def)
qed

lemmas fr_eval =
  fruchterman_reingold_layout_def unique_nodes_def edge_list_to_sparse_matrix_def
  coo_matrix_def lookup_def initial_array_def dense_fruchterman_reingold_def
  sparse_fruchterman_reingold_def initial_positions_def default_k_def
  dense_temperature_def dense_iteration_def sparse_iteration_def node_displacement_def
  vsum_def step_length_def zero_rows_def rescale_layout_def mean_def fdiv_def
  clip_min_def vsub_def vadd_def smul_def Let_def

lemma layout_fixed_example:
  "fruchterman_reingold_layout [(0::nat, 1)] None (Some 1) (Some [(0, (0, 0)), (1, (2, 0))])
     (Some [0]) 1 1 (0, 0) (\<lambda>_. (0, 0)) = Inr [(0, (0, 0)), (1, (2.2, 0))]"
  by (simp add: fr_eval upt_rec)

lemma dense_fixed_example:
  "dense_fruchterman_reingold [[0, 1], [0, 0]] (Some 1) (Some [(0, 0), (2, 0)]) (Some [0]) 1
     (\<lambda>_. (0, 0)) = Inr [(0, 0), (2.2, 0)]"
  by (simp add: fr_eval upt_rec)

lemma sparse_fixed_example:
  "sparse_fruchterman_reingold [[0, 1], [0, 0]] (Some 1) (Some [(0, 0), (2, 0)]) (Some [0]) 1
     (\<lambda>_. (0, 0)) = Inr [(0, 0), (2.1, 0)]"
  by (simp add: fr_eval upt_rec)

theorem fixed_nodes_keep_position_witness:
  "fruchterman_reingold_layout [(0::nat, 1)] None (Some 1) (Some [(0, (0, 0)), (1, (2, 0))])
     (Some [0]) 1 1 (0, 0) (\<lambda>_. (0, 0)) = Inr [(0, (0, 0)), (1, (2.2, 0))]
   \<and> map_of [(0::nat, (0::real, 0::real)), (1, (2.2, 0))] 0 = Some (0, 0)
   \<and> dense_fruchterman_reingold [[0, 1], [0, 0]] (Some 1) (Some [(0, 0), (2, 0)]) (Some [0]) 1
     (\<lambda>_. (0, 0)) = Inr [(0, 0), (2.2, 0)]
   \<and> [(0, 0), (2.2, 0)] ! 0 = [(0::real, 0::real), (2, 0)] ! 0
   \<and> sparse_fruchterman_reingold [[0, 1], [0, 0]] (Some 1) (Some [(0, 0), (2, 0)]) (Some [0]) 1
     (\<lambda>_. (0, 0)) = Inr [(0, 0), (2.1, 0)]
   \<and> [(0, 0), (2.1, 0)] ! 0 = [(0::real, 0::real), (2, 0)] ! 0"
  using fixed_nodes_keep_position
    [where edge_list = "[(0::nat, 1)]" and edge_weights = None and k = "Some 1"
       and pos = "[(0, (0, 0)), (1, (2, 0))]" and fixed = "[0]" and iterations = 1
       and scale = 1 and center = "(0, 0)" and rnd = "\<lambda>_. (0, 0)"
       and result = "[(0, (0, 0)), (1, (2.2, 0))]" and v = 0 and xy = "(0, 0)"
       and A = "[[0, 1], [0, 0]]" and k' = "Some 1" and p = "[(0, 0), (2, 0)]" and f = "[0]"
       and p' = "[(0, 0), (2.2, 0)]" and i = 0]
    fixed_nodes_keep_position
    [where A = "[[0, 1], [0, 0]]" and k' = "Some 1" and p = "[(0, 0), (2, 0)]" and f = "[0]"
       and iterations = 1 and rnd = "\<lambda>_. (0, 0)" and p' = "[(0, 0), (2.1, 0)]" and i = 0]
    layout_fixed_example dense_fixed_example sparse_fixed_example
  by simp

section \<open>The dense and the sparse solver\<close>

text \<open>
  One pass is the same in both solvers when the fixed indices are rows of the array: they
  differ only in the temperature they start from.
\<close>

lemma zero_rows_none:
  "length rows = n \<Longrightarrow> rows = map (\<lambda>i. if i \<in> set [] then (0, 0) else rows ! i) [0..<n]"
  by (rule nth_equalityI) simp_all

lemma pass_rows:
  assumes len: "length A = length pos"
  shows "map (\<lambda>(p, d). vadd p d)
           (zip pos (map (\<lambda>i. if i \<in> set F then (0, 0)
                               else map (\<lambda>d. smul (t / step_length d) d)
                                      (map (\<lambda>(Ai, p). node_displacement k Ai pos p) (zip A pos)) ! i)
                      [0..<length pos]))
         = map (\<lambda>(p, d). vadd p (fst d * t / step_length d, snd d * t / step_length d))
             (zip pos (map (\<lambda>i. if i \<in> set F then (0, 0)
                                 else node_displacement k (A ! i) pos (pos ! i))
                        [0..<length A]))"
  by (rule nth_equalityI) (simp_all add: len smul_def vadd_def)

lemma dense_sparse_iteration:
  assumes "list_all (\<lambda>i. i < length pos) (case fixed of None \<Rightarrow> [] | Some f \<Rightarrow> f)"
  shows "dense_iteration A k fixed t pos
         = sparse_iteration A k (case fixed of None \<Rightarrow> [] | Some f \<Rightarrow> f) t pos"
proof (cases "length A \<noteq> length pos \<or> \<not> list_all (\<lambda>Ai. length Ai = length pos) A")
  case True
  then show ?thesis
    by (simp add: dense_iteration_def sparse_iteration_def)
next
  case False
  then have len: "length A = length pos" by simp
  show ?thesis
  proof (cases fixed)
    case None
    have "length (map (\<lambda>d. smul (t / step_length d) d)
            (map (\<lambda>(Ai, p). node_displacement k Ai pos p) (zip A pos))) = length pos"
      by (simp add: len)
    from zero_rows_none [OF this] pass_rows [OF len, of "[]" t k] False None show ?thesis
      unfolding dense_iteration_def sparse_iteration_def Let_def
      by (simp del: set_simps empty_iff)
  next
    case (Some f)
    with assms pass_rows [OF len, of f t k] False show ?thesis
      unfolding dense_iteration_def sparse_iteration_def Let_def
      by (simp add: zero_rows_def len del: map_map)
  qed
qed

lemma fr_loop_cong:
  assumes "\<And>t p. length p = m \<Longrightarrow> step1 t p = step2 t p"
    and "\<And>t p p'. step2 t p = Inr p' \<Longrightarrow> length p' = length p"
  shows "length pos = m \<Longrightarrow> fr_loop step1 n t dt pos = fr_loop step2 n t dt pos"
proof (induction n arbitrary: t pos)
  case 0
  then show ?case by simp
next
  case (Suc n)
  show ?case
  proof (cases "step2 t pos")
    case (Inl e)
    with assms(1) [OF Suc.prems, of t] show ?thesis by simp
  next
    case (Inr q)
    with assms(2) Suc.prems have "length q = m" by simp
    from Suc.IH [OF this] Inr assms(1) [OF Suc.prems, of t] show ?thesis by simp
  qed
qed

text \<open>
  When the initial positions span exactly one unit on their wider axis, the dense solver
  starts from 0.1 as well, and the two solvers return the same positions.
\<close>

lemma dense_sparse_agree:
  assumes "dense_temperature (initial_positions pos (length A) rnd) = Inr 0.1"
    and "list_all (\<lambda>i. i < length (initial_positions pos (length A) rnd))
           (case fixed of None \<Rightarrow> [] | Some f \<Rightarrow> f)"
  shows "dense_fruchterman_reingold A k pos fixed iterations rnd
         = sparse_fruchterman_reingold A k pos fixed iterations rnd"
proof -
  define start where "start = initial_positions pos (length A) rnd"
  define F where "F = (case fixed of None \<Rightarrow> [] | Some f \<Rightarrow> f)"
  have "fr_loop (dense_iteration A k' fixed) iterations 0.1 (0.1 / real (iterations + 1)) start
        = fr_loop (sparse_iteration A k' F) iterations 0.1 (0.1 / real (iterations + 1)) start" for k'
  proof (rule fr_loop_cong [where m = "length start"])
    fix t and p :: "vec list" assume "length p = length start"
    with assms(2) show "dense_iteration A k' fixed t p = sparse_iteration A k' F t p"
      unfolding F_def start_def by (intro dense_sparse_iteration) simp
  next
    fix t and p p' :: "vec list" assume "sparse_iteration A k' F t p = Inr p'"
    then show "length p' = length p" by (rule sparse_iteration_length(1))
  qed simp
  with assms(1) show ?thesis
    unfolding dense_fruchterman_reingold_def sparse_fruchterman_reingold_def Let_def
      start_def [symmetric] F_def [symmetric]
    by (cases "default_k k (length A)") (simp_all add: start_def)
qed

text \<open>
  C2. The two solvers do not agree on every input: the dense solver starts from a
  temperature of a tenth of the extent of the initial positions, the sparse solver always
  from 0.1. For the edge 0 \<rightarrow> 1 with the nodes at (0,0) and (2,0), \<open>k = 1\<close> and one pass,
  the dense solver moves both nodes by 0.2 and the sparse solver by 0.1.
\<close>

theorem dense_sparse_differ:
  "dense_fruchterman_reingold [[0, 1], [0, 0]] (Some 1) (Some [(0, 0), (2, 0)]) None 1 (\<lambda>_. (0, 0))
     = Inr [(0.2, 0), (2.2, 0)]
   \<and> sparse_fruchterman_reingold [[0, 1], [0, 0]] (Some 1) (Some [(0, 0), (2, 0)]) None 1 (\<lambda>_. (0, 0))
     = Inr [(0.1, 0), (2.1, 0)]
   \<and> dense_temperature [(0, 0), (2, 0)] = Inr 0.2"
  by (simp add: fr_eval upt_rec)

section \<open>Rescaling\<close>












section \<open>Curved edges: control points (\<open>_edge_layout.py\<close>)\<close>

text \<open>
  The node positions are a dictionary from nodes to points. A control point is a fresh
  identifier (\<open>uuid4()\<close>): the embedding draws them from a counter, which the functions
  take and return. \<open>edge_to_control_points\<close> is a dictionary in insertion order, a list
  of items with distinct keys; \<open>control_point_positions\<close> is a map.
\<close>






text \<open>
  The body of the loop of \<open>_initialize_nonloop_control_point_positions\<close> for one edge:
  the points at the fractions \<open>np.linspace(0, 1, n + 2)[1:-1]\<close> of the way from the
  source to the target, all moved by \<open>offset\<close> to one side when parallel edges are not
  bundled and the reverse edge is a key of the dictionary.
\<close>

definition linspace_inner :: "nat \<Rightarrow> real list" where
  "linspace_inner n = map (\<lambda>i. real i / real (n + 1)) [1..<n + 1]"





section \<open>Fresh control points\<close>



lemma lookup_Inr: "lookup m k = Inr v \<longleftrightarrow> m k = Some v"
  by (simp add: lookup_def split: option.splits)



section \<open>Seeding the control points\<close>


lemma length_linspace_inner [simp]: "length (linspace_inner n) = n"
  by (simp add: linspace_inner_def)












section \<open>Edge bundling (\<open>get_bundled_edge_paths\<close> in \<open>_edge_layout.py\<close>)\<close>

text \<open>
  \<open>edge_to_control_points\<close> maps every edge to its chain of control points, an
  \<open>(n, 2)\<close> array; it is a list of items here, and so are \<open>edge_to_k\<close> and the forces
  \<open>F\<close>. Python sets of edges are lists without duplicates.
\<close>

type_synonym 'n edge = "'n \<times> 'n"
type_synonym 'n chains = "('n edge \<times> vec list) list"

text \<open>The loop that keeps one direction of every bi-directional pair.\<close>

fun unidirectional_loop :: "'n edge list \<Rightarrow> 'n edge list \<Rightarrow> 'n edge list" where
  "unidirectional_loop [] U = U"
| "unidirectional_loop ((source, target) # edges) U =
     unidirectional_loop edges
       (if (target, source) \<notin> set U
        then (if (source, target) \<in> set U then U else U @ [(source, target)])
        else U)"

definition get_k :: "'n edge list \<Rightarrow> ('n \<rightharpoonup> vec) \<Rightarrow> real \<Rightarrow> error + ('n edge \<times> real) list" where
  "get_k edges node_positions k =
     emap (\<lambda>(s, t).
             ebind (lookup node_positions t) (\<lambda>pt.
             ebind (lookup node_positions s) (\<lambda>ps.
             ebind (fdiv k (linalg_norm (vsub pt ps))) (\<lambda>ke. Inr ((s, t), ke)))))
          edges"

definition initialize_bundled_control_points ::
  "'n edge list \<Rightarrow> ('n \<rightharpoonup> vec) \<Rightarrow> error + 'n chains" where
  "initialize_bundled_control_points edges node_positions =
     emap (\<lambda>(source, target).
             ebind (lookup node_positions source) (\<lambda>ps.
             ebind (lookup node_positions target) (\<lambda>pt.
               Inr ((source, target), [ps, pt]))))
          edges"

text \<open>
  \<open>_expand_control_points\<close> for one chain: the old points stay at the even indices and
  the midpoint \<open>0.5 * (p2 - p1) + p1\<close> of every adjacent pair goes between them.
\<close>

fun expand_chain :: "vec list \<Rightarrow> vec list" where
  "expand_chain (a # b # ps) = a # vadd (smul 0.5 (vsub b a)) a # expand_chain (b # ps)"
| "expand_chain ps = ps"

definition expand_control_points :: "'n chains \<Rightarrow> error + 'n chains" where
  "expand_control_points edge_to_control_points =
     emap (\<lambda>(edge, control_points_old).
             if control_points_old = [] then Inl ValueError
             else Inr (edge, expand_chain control_points_old))
          edge_to_control_points"

text \<open>
  \<open>_get_Fs\<close>: the spring force. \<open>delta[i] = - diff[i - 1] + diff[i]\<close> for the inner
  points and zero for the first and the last one.
\<close>

definition spring_delta :: "vec list \<Rightarrow> vec list" where
  "spring_delta control_points =
     map (\<lambda>i. if i = 0 \<or> i = length control_points - 1 then (0, 0)
               else vadd (vsub (0, 0) (vsub (control_points ! i) (control_points ! (i - 1))))
                         (vsub (control_points ! (i + 1)) (control_points ! i)))
         [0..<length control_points]"

definition get_Fs :: "'n chains \<Rightarrow> ('n edge \<times> real) list \<Rightarrow> error + 'n chains" where
  "get_Fs edge_to_control_points k =
     emap (\<lambda>(edge, control_points).
             ebind (lookup (map_of k) edge) (\<lambda>ke.
             ebind (fdiv ke (real_of_int (int (length control_points) - 1))) (\<lambda>kp.
               Inr (edge, map (smul kp) (spring_delta control_points)))))
          edge_to_control_points"

text \<open>
  \<open>_get_Fe\<close>: the electrostatic force of one compatible pair. Each row of \<open>delta\<close> is
  divided by its squared length without a guard; the first and the last row are then set
  to zero, so only a zero among the inner rows is left non-finite. The positions of the
  control points are real numbers: a compatibility that is \<open>inf\<close> or \<open>nan\<close> makes every
  row of the product non-finite.
\<close>

definition set_ends_zero :: "(error + vec) list \<Rightarrow> error + (error + vec) list" where
  "set_ends_zero rows =
     (if rows = [] then Inl IndexError
      else Inr ((rows[0 := Inr (0, 0)])[length rows - 1 := Inr (0, 0)]))"

definition pair_displacement ::
  "npfloat \<Rightarrow> bool \<Rightarrow> vec list \<Rightarrow> vec list \<Rightarrow> error + vec list" where
  "pair_displacement compatibility reverse P Q =
     (if length P \<noteq> length Q then Inl ValueError
      else
        let delta = map (\<lambda>(q, p). vsub q p) (zip (if reverse then rev Q else Q) P);
            displacement =
              map (\<lambda>d. case compatibility of
                          Finite c \<Rightarrow> vdiv (smul c d) (fst d * fst d + snd d * snd d)
                        | _ \<Rightarrow> Inl NonFinite)
                  delta
        in ebind (set_ends_zero displacement) (emap id))"

fun get_Fe ::
  "'n chains \<Rightarrow> ('n edge \<times> 'n edge \<times> npfloat \<times> bool) list \<Rightarrow> 'n chains \<Rightarrow> error + 'n chains" where
  "get_Fe edge_to_control_points [] out = Inr out"
| "get_Fe edge_to_control_points ((e1, e2, compatibility, reverse) # edge_compatibility) out =
     ebind (lookup (map_of edge_to_control_points) e1) (\<lambda>P.
     ebind (lookup (map_of edge_to_control_points) e2) (\<lambda>Q.
     ebind (pair_displacement compatibility reverse P Q) (\<lambda>displacement.
       get_Fe edge_to_control_points edge_compatibility
         (AList.map_entry e2
            (\<lambda>f. map (\<lambda>(a, b). vsub a b)
                   (zip f (if reverse then rev displacement else displacement)))
            (AList.map_entry e1 (\<lambda>f. map (\<lambda>(a, b). vadd a b) (zip f displacement)) out)))))"

text \<open>
  \<open>_update_control_point_positions\<close>. The norm is that of the whole array of an edge;
  it is clamped to at least \<open>1e-12\<close> before the division.
\<close>

definition frobenius_norm :: "vec list \<Rightarrow> real" where
  "frobenius_norm rows = sqrt (sum_list (map (\<lambda>r. fst r * fst r + snd r * snd r) rows))"

definition displacement_length :: "vec list \<Rightarrow> real" where
  "displacement_length displacement = clip_min (1 / 10 ^ 12) (frobenius_norm displacement)"

definition clamp_displacement :: "vec list \<Rightarrow> real \<Rightarrow> vec list" where
  "clamp_displacement displacement step_size =
     map (\<lambda>r. (fst r / displacement_length displacement
                  * clip_max step_size (displacement_length displacement),
                snd r / displacement_length displacement
                  * clip_max step_size (displacement_length displacement)))
         displacement"

fun update_control_point_positions :: "'n chains \<Rightarrow> 'n chains \<Rightarrow> real \<Rightarrow> 'n chains" where
  "update_control_point_positions edge_to_control_points [] step_size = edge_to_control_points"
| "update_control_point_positions edge_to_control_points ((edge, displacement) # F) step_size =
     update_control_point_positions
       (AList.map_entry edge
          (\<lambda>c. map (\<lambda>(a, b). vadd a b) (zip c (clamp_displacement displacement step_size)))
          edge_to_control_points)
       F step_size"

text \<open>\<open>_straighten_path\<close> and \<open>_straighten_edges\<close>.\<close>

definition straighten_path :: "vec list \<Rightarrow> real \<Rightarrow> vec list" where
  "straighten_path path straighten_by =
     map (\<lambda>i. vadd (smul (1 - straighten_by) (path ! i))
                    (smul straighten_by
                       (vadd (hd path)
                          (smul (real i / real (length path - 1)) (vsub (last path) (hd path))))))
         [0..<length path]"

definition straighten_edges :: "'n chains \<Rightarrow> real \<Rightarrow> 'n chains" where
  "straighten_edges edge_to_path straighten_by =
     map (\<lambda>(edge, path). (edge, straighten_path path straighten_by)) edge_to_path"

text \<open>
  \<open>_smooth_edges\<close>. The smoothing of one path, \<open>_smooth_path\<close>, fits a spline with
  scipy's \<open>UnivariateSpline\<close>, which is not code of this repository: it is the parameter
  \<open>smooth_path\<close>.
\<close>

definition smooth_edges :: "(vec list \<Rightarrow> vec list) \<Rightarrow> 'n chains \<Rightarrow> 'n chains" where
  "smooth_edges smooth_path edge_to_path =
     map (\<lambda>(edge, path). (edge, smooth_path path)) edge_to_path"

text \<open>The force iterations of one cycle, and the cycles.\<close>

fun bundle_iterations ::
  "nat \<Rightarrow> 'n chains \<Rightarrow> ('n edge \<times> real) list \<Rightarrow> ('n edge \<times> 'n edge \<times> npfloat \<times> bool) list
     \<Rightarrow> real \<Rightarrow> error + 'n chains" where
  "bundle_iterations 0 edge_to_control_points edge_to_k edge_compatibility step_size =
     Inr edge_to_control_points"
| "bundle_iterations (Suc n) edge_to_control_points edge_to_k edge_compatibility step_size =
     ebind (get_Fs edge_to_control_points edge_to_k) (\<lambda>F.
     ebind (get_Fe edge_to_control_points edge_compatibility F) (\<lambda>F.
       bundle_iterations n (update_control_point_positions edge_to_control_points F step_size)
         edge_to_k edge_compatibility step_size))"

fun bundle_cycles ::
  "nat \<Rightarrow> nat \<Rightarrow> real \<Rightarrow> 'n chains \<Rightarrow> ('n edge \<times> real) list
     \<Rightarrow> ('n edge \<times> 'n edge \<times> npfloat \<times> bool) list \<Rightarrow> error + 'n chains" where
  "bundle_cycles 0 total_iterations step_size edge_to_control_points edge_to_k edge_compatibility =
     Inr edge_to_control_points"
| "bundle_cycles (Suc c) total_iterations step_size edge_to_control_points edge_to_k
       edge_compatibility =
     ebind (expand_control_points edge_to_control_points) (\<lambda>expanded.
     ebind (bundle_iterations total_iterations expanded edge_to_k edge_compatibility step_size)
       (\<lambda>moved.
          bundle_cycles c (2 * total_iterations div 3) (step_size / 2) moved edge_to_k
            edge_compatibility))"

text \<open>Putting the reverse of every bi-directional pair back.\<close>

fun add_reverse_edges :: "'n edge list \<Rightarrow> 'n chains \<Rightarrow> error + 'n chains" where
  "add_reverse_edges [] d = Inr d"
| "add_reverse_edges ((source, target) # reverse_edges) d =
     ebind (lookup (map_of d) (target, source)) (\<lambda>path.
       add_reverse_edges reverse_edges (AList.update (source, target) (rev path) d))"

text \<open>
  \<open>get_bundled_edge_paths\<close>, without the decorator that splits the graph into its
  components. The result is the list of warnings and the paths.
\<close>

definition get_bundled_edge_paths ::
  "(vec list \<Rightarrow> vec list) \<Rightarrow> 'n edge list \<Rightarrow> ('n \<rightharpoonup> vec) \<Rightarrow> real \<Rightarrow> real \<Rightarrow> nat \<Rightarrow> nat
     \<Rightarrow> real \<Rightarrow> real \<Rightarrow> error + string list \<times> 'n chains" where
  "get_bundled_edge_paths smooth_path edges node_positions k compatibility_threshold
       total_cycles total_iterations step_size straighten_by =
     (let warnings = (if list_ex (\<lambda>(source, target). source = target) edges
                      then [''Edge-bundling of self-loops not supported. Self-loops are removed from the edge list.'']
                      else []);
          edges = (if list_ex (\<lambda>(source, target). source = target) edges
                   then filter (\<lambda>(source, target). source \<noteq> target) edges
                   else edges);
          unidirectional_edges = unidirectional_loop edges [];
          reverse_edges = remdups (filter (\<lambda>e. e \<notin> set unidirectional_edges) edges);
          edges = unidirectional_edges
      in ebind (get_k edges node_positions k) (\<lambda>edge_to_k.
         ebind (get_edge_compatibility edges node_positions compatibility_threshold)
           (\<lambda>edge_compatibility.
         ebind (initialize_bundled_control_points edges node_positions) (\<lambda>edge_to_control_points.
         ebind (bundle_cycles total_cycles total_iterations step_size edge_to_control_points
                  edge_to_k edge_compatibility) (\<lambda>edge_to_control_points.
           let edge_to_control_points =
                 (if straighten_by > 0
                  then straighten_edges edge_to_control_points straighten_by
                  else edge_to_control_points);
               edge_to_control_points = smooth_edges smooth_path edge_to_control_points
           in ebind (add_reverse_edges reverse_edges edge_to_control_points) (\<lambda>edge_to_path.
                Inr (warnings, edge_to_path)))))))"

section \<open>The end points of a bundled chain\<close>

text \<open>
  \<open>anchored node_positions m d\<close>: every chain of \<open>d\<close> has \<open>m\<close> points, begins at the
  position of its source and ends at the position of its target. \<open>zero_ends m F\<close>: every
  force array of \<open>F\<close> has \<open>m\<close> rows, the first and the last of them zero.
\<close>

definition anchored :: "('n \<rightharpoonup> vec) \<Rightarrow> nat \<Rightarrow> 'n chains \<Rightarrow> bool" where
  "anchored node_positions m d =
     list_all (\<lambda>((s, t), chain). length chain = m \<and> node_positions s = Some (hd chain)
                                 \<and> node_positions t = Some (last chain)) d"

definition zero_ends :: "nat \<Rightarrow> 'n chains \<Rightarrow> bool" where
  "zero_ends m F = list_all (\<lambda>(e, f). length f = m \<and> hd f = (0, 0) \<and> last f = (0, 0)) F"

lemma emap_map_fst:
  assumes "emap f xs = Inr ys" and "\<And>x y. x \<in> set xs \<Longrightarrow> f x = Inr y \<Longrightarrow> fst y = g x"
  shows "map fst ys = map g xs"
  using assms
proof (induction xs arbitrary: ys)
  case Nil
  then show ?case by simp
next
  case (Cons a xs)
  from Cons.prems(1) obtain b bs where
    b: "f a = Inr b" and bs: "emap f xs = Inr bs" and ys: "ys = b # bs"
    by (auto simp: ebind_eq_Inr)
  have "map fst bs = map g xs"
    by (rule Cons.IH [OF bs], rule Cons.prems(2)) auto
  with Cons.prems(2) [of a b] b ys show ?case by simp
qed

lemma emap_list_all:
  assumes "emap f xs = Inr ys" and "\<And>x y. x \<in> set xs \<Longrightarrow> f x = Inr y \<Longrightarrow> P y"
  shows "list_all P ys"
  using assms
proof (induction xs arbitrary: ys)
  case Nil
  then show ?case by simp
next
  case (Cons a xs)
  from Cons.prems(1) obtain b bs where
    b: "f a = Inr b" and bs: "emap f xs = Inr bs" and ys: "ys = b # bs"
    by (auto simp: ebind_eq_Inr)
  have "list_all P bs"
    by (rule Cons.IH [OF bs], rule Cons.prems(2)) auto
  with Cons.prems(2) [of a b] b ys show ?case by simp
qed

lemma initialize_bundled_anchored:
  assumes "initialize_bundled_control_points edges node_positions = Inr d"
  shows "anchored node_positions 2 d" and "map fst d = edges"
proof -
  show "anchored node_positions 2 d"
    unfolding anchored_def
    using assms [unfolded initialize_bundled_control_points_def]
    by (rule emap_list_all) (auto simp: ebind_eq_Inr lookup_Inr)
  have "map fst d = map (\<lambda>e. e) edges"
    using assms [unfolded initialize_bundled_control_points_def]
    by (rule emap_map_fst) (auto simp: ebind_eq_Inr)
  then show "map fst d = edges" by simp
qed

lemma expand_chain_props:
  "xs \<noteq> [] \<Longrightarrow>
     length (expand_chain xs) = 2 * (length xs - 1) + 1
     \<and> hd (expand_chain xs) = hd xs \<and> last (expand_chain xs) = last xs
     \<and> expand_chain xs \<noteq> []"
proof (induction xs rule: expand_chain.induct)
  case (1 a b ps)
  then show ?case by (cases ps) auto
qed simp_all

text \<open>The indices of the source: the old points at the even places, midpoints between.\<close>

lemma expand_chain_nth:
  "i < length xs \<Longrightarrow> expand_chain xs ! (2 * i) = xs ! i"
  "Suc i < length xs \<Longrightarrow>
     expand_chain xs ! (2 * i + 1) = vadd (smul 0.5 (vsub (xs ! Suc i) (xs ! i))) (xs ! i)"
proof (induction xs arbitrary: i rule: expand_chain.induct)
  case (1 a b ps)
  {
    case 1
    then show ?case using "1.IH"(1) [of "i - 1"] by (cases i) auto
  next
    case 2
    then show ?case using "1.IH"(2) [of "i - 1"] by (cases i) auto
  }
qed simp_all

lemma expand_anchored:
  assumes "anchored node_positions m d" and "2 \<le> m"
  shows "\<exists>d'. expand_control_points d = Inr d'
           \<and> anchored node_positions (2 * (m - 1) + 1) d' \<and> map fst d' = map fst d"
  using assms(1)
proof (induction d)
  case Nil
  then show ?case
    by (simp add: expand_control_points_def anchored_def)
next
  case (Cons item d)
  obtain s t chain where item: "item = ((s, t), chain)"
    by (cases item) auto
  from Cons.prems item have chain: "length chain = m" "node_positions s = Some (hd chain)"
      "node_positions t = Some (last chain)" and rest: "anchored node_positions m d"
    by (simp_all add: anchored_def)
  from chain(1) assms(2) have ne: "chain \<noteq> []" by auto
  from Cons.IH [OF rest] obtain d' where
    d': "expand_control_points d = Inr d'" "anchored node_positions (2 * (m - 1) + 1) d'"
        "map fst d' = map fst d"
    by blast
  from expand_chain_props [OF ne] chain item d' ne
  have "expand_control_points (item # d) = Inr (((s, t), expand_chain chain) # d')"
    and "anchored node_positions (2 * (m - 1) + 1) (((s, t), expand_chain chain) # d')"
    by (simp_all add: expand_control_points_def anchored_def)
  with d'(3) item show ?case by simp
qed

lemma map_entry_list_all:
  assumes "list_all (\<lambda>(e, x). Q e x) d" and "\<And>x. Q k x \<Longrightarrow> Q k (g x)"
  shows "list_all (\<lambda>(e, x). Q e x) (AList.map_entry k g d)"
  using assms(1)
proof (induction d)
  case Nil
  then show ?case by simp
next
  case (Cons item d)
  then show ?case
    using assms(2) by (cases item) auto
qed

lemma map_fst_map_entry [simp]: "map fst (AList.map_entry k g d) = map fst d"
  by (induction d) auto

lemma hd_zip_map:
  "xs \<noteq> [] \<Longrightarrow> length xs = length ys \<Longrightarrow>
     hd (map f (zip xs ys)) = f (hd xs, hd ys) \<and> last (map f (zip xs ys)) = f (last xs, last ys)"
proof (intro conjI)
  assume "xs \<noteq> []" "length xs = length ys"
  then show "hd (map f (zip xs ys)) = f (hd xs, hd ys)"
    by (cases xs; cases ys) auto
  assume "xs \<noteq> []" "length xs = length ys"
  then show "last (map f (zip xs ys)) = f (last xs, last ys)"
    by (cases xs rule: rev_cases; cases ys rule: rev_cases) auto
qed

lemma vadd_zero [simp]: "vadd a (0, 0) = a" "vadd (0, 0) a = a"
  by (simp_all add: vadd_def)

lemma vsub_zero [simp]: "vsub a (0, 0) = a"
  by (simp add: vsub_def)

lemma smul_zero [simp]: "smul c (0, 0) = (0, 0)"
  by (simp add: smul_def)

lemma spring_delta_ends:
  "control_points \<noteq> [] \<Longrightarrow>
     length (spring_delta control_points) = length control_points
     \<and> hd (spring_delta control_points) = (0, 0) \<and> last (spring_delta control_points) = (0, 0)"
  by (simp add: spring_delta_def hd_map last_map hd_upt last_upt)

lemma get_Fs_zero_ends:
  assumes "get_Fs d k = Inr F" and "anchored node_positions m d" and "1 \<le> m"
  shows "zero_ends m F" and "map fst F = map fst d"
proof -
  have chain: "length chain = m" if "(e, chain) \<in> set d" for e chain
    using assms(2) that by (auto simp: anchored_def list_all_iff)
  show "zero_ends m F"
    unfolding zero_ends_def
    using assms(1) [unfolded get_Fs_def]
  proof (rule emap_list_all)
    fix x y
    assume x: "x \<in> set d"
      and y: "(case x of (edge, control_points) \<Rightarrow>
                ebind (lookup (map_of k) edge) (\<lambda>ke.
                ebind (fdiv ke (real_of_int (int (length control_points) - 1))) (\<lambda>kp.
                  Inr (edge, map (smul kp) (spring_delta control_points))))) = Inr y"
    obtain e chain where xe: "x = (e, chain)" by (cases x)
    with x have "(e, chain) \<in> set d" by simp
    then have len: "length chain = m" by (rule chain)
    with assms(3) have ne: "chain \<noteq> []" by auto
    from y xe obtain kp where "y = (e, map (smul kp) (spring_delta chain))"
      by (auto simp: ebind_eq_Inr)
    moreover from spring_delta_ends [OF ne] ne have "spring_delta chain \<noteq> []"
      by auto
    ultimately show "case y of (e, f) \<Rightarrow> length f = m \<and> hd f = (0, 0) \<and> last f = (0, 0)"
      using spring_delta_ends [OF ne] len by (simp add: hd_map last_map)
  qed
  show "map fst F = map fst d"
    using assms(1) [unfolded get_Fs_def]
    by (rule emap_map_fst) (auto simp: ebind_eq_Inr)
qed

lemma emap_id_Inr: "emap id xs = Inr ys \<Longrightarrow> xs = map Inr ys"
proof (induction xs arbitrary: ys)
  case Nil
  then show ?case by simp
next
  case (Cons a xs)
  then show ?case by (auto simp: ebind_eq_Inr)
qed

lemma pair_displacement_ends:
  assumes "pair_displacement c reverse P Q = Inr displacement"
  shows "length displacement = length P"
    and "hd displacement = (0, 0)" and "last displacement = (0, 0)"
proof -
  define rows where
    "rows = map (\<lambda>d. case c of
                        Finite c \<Rightarrow> vdiv (smul c d) (fst d * fst d + snd d * snd d)
                      | _ \<Rightarrow> Inl NonFinite)
              (map (\<lambda>(q, p). vsub q p) (zip (if reverse then rev Q else Q) P))"
  from assms have len: "length P = length Q"
    and ne: "rows \<noteq> []"
    and run: "emap id ((rows[0 := Inr (0, 0)])[length rows - 1 := Inr (0, 0)]) = Inr displacement"
    by (auto simp: pair_displacement_def set_ends_zero_def Let_def rows_def ebind_eq_Inr
        split: if_splits)
  from emap_id_Inr [OF run]
  have eq: "(rows[0 := Inr (0, 0)])[length rows - 1 := Inr (0, 0)] = map Inr displacement" .
  then have l: "length displacement = length rows"
    by (metis length_list_update length_map)
  from len have "length rows = length P"
    by (simp add: rows_def)
  with l show "length displacement = length P" by simp
  from ne l have dne: "displacement \<noteq> []" by auto
  from ne have "((rows[0 := Inr (0, 0)])[length rows - 1 := Inr (0, 0)]) ! 0 = Inr (0, 0)"
    by (cases "length rows - 1 = 0") (simp_all add: nth_list_update)
  with eq dne have "displacement ! 0 = (0, 0)"
    by simp
  with dne show "hd displacement = (0, 0)"
    by (simp add: hd_conv_nth)
  from dne l have lt: "length rows - 1 < length displacement"
    by (cases displacement) auto
  from ne have "((rows[0 := Inr (0, 0)])[length rows - 1 := Inr (0, 0)]) ! (length rows - 1)
                = Inr (0, 0)"
    by simp
  then have "map Inr displacement ! (length rows - 1) = (Inr (0, 0) :: error + vec)"
    unfolding eq .
  with lt l have "displacement ! (length displacement - 1) = (0, 0)"
    by simp
  with dne show "last displacement = (0, 0)"
    by (simp add: last_conv_nth)
qed

lemma add_rows_ends:
  assumes "length f = m" and "length g = m" and "1 \<le> m"
    and "hd g = (0, 0)" and "last g = (0, 0)"
  shows "length (map (\<lambda>(a, b). vadd a b) (zip f g)) = m"
    and "hd (map (\<lambda>(a, b). vadd a b) (zip f g)) = hd f"
    and "last (map (\<lambda>(a, b). vadd a b) (zip f g)) = last f"
    and "length (map (\<lambda>(a, b). vsub a b) (zip f g)) = m"
    and "hd (map (\<lambda>(a, b). vsub a b) (zip f g)) = hd f"
    and "last (map (\<lambda>(a, b). vsub a b) (zip f g)) = last f"
proof -
  from assms have ne: "f \<noteq> []" and len: "length f = length g" by auto
  show "length (map (\<lambda>(a, b). vadd a b) (zip f g)) = m"
    and "length (map (\<lambda>(a, b). vsub a b) (zip f g)) = m"
    using assms(1,2) by simp_all
  show "hd (map (\<lambda>(a, b). vadd a b) (zip f g)) = hd f"
    and "last (map (\<lambda>(a, b). vadd a b) (zip f g)) = last f"
    using hd_zip_map [OF ne len, of "\<lambda>(a, b). vadd a b"] assms(4,5) by simp_all
  show "hd (map (\<lambda>(a, b). vsub a b) (zip f g)) = hd f"
    and "last (map (\<lambda>(a, b). vsub a b) (zip f g)) = last f"
    using hd_zip_map [OF ne len, of "\<lambda>(a, b). vsub a b"] assms(4,5) by simp_all
qed

lemma get_Fe_zero_ends:
  assumes "get_Fe d pairs out = Inr F" and "anchored node_positions m d"
    and "zero_ends m out" and "1 \<le> m"
  shows "zero_ends m F \<and> map fst F = map fst out"
  using assms(1,3)
proof (induction pairs arbitrary: out)
  case Nil
  then show ?case by simp
next
  case (Cons item pairs)
  obtain e1 e2 c r where item: "item = (e1, e2, c, r)"
    by (cases item) auto
  let ?add = "\<lambda>displacement f. map (\<lambda>(a, b). vadd a b) (zip f displacement)"
  let ?sub = "\<lambda>displacement f. map (\<lambda>(a, b). vsub a b)
                                 (zip f (if r then rev displacement else displacement))"
  from Cons.prems(1) item obtain P Q displacement where
    P: "lookup (map_of d) e1 = Inr P" and Q: "lookup (map_of d) e2 = Inr Q"
    and disp: "pair_displacement c r P Q = Inr displacement"
    and rest: "get_Fe d pairs
                 (AList.map_entry e2 (?sub displacement)
                    (AList.map_entry e1 (?add displacement) out)) = Inr F"
    by (auto simp: ebind_eq_Inr)
  from P have "(e1, P) \<in> set d"
    by (simp add: lookup_Inr map_of_SomeD)
  with assms(2) have lenP: "length P = m"
    by (auto simp: anchored_def list_all_iff)
  note ends = pair_displacement_ends [OF disp]
  from ends(1) lenP have len: "length displacement = m" by simp
  with assms(4) have ne: "displacement \<noteq> []" by auto
  have add: "list_all (\<lambda>(e, f). length f = m \<and> hd f = (0, 0) \<and> last f = (0, 0))
               (AList.map_entry e1 (?add displacement) out)"
  proof (rule map_entry_list_all)
    show "list_all (\<lambda>(e, f). length f = m \<and> hd f = (0, 0) \<and> last f = (0, 0)) out"
      using Cons.prems(2) by (simp add: zero_ends_def)
    fix f :: "vec list"
    assume "length f = m \<and> hd f = (0, 0) \<and> last f = (0, 0)"
    then show "length (?add displacement f) = m \<and> hd (?add displacement f) = (0, 0)
                 \<and> last (?add displacement f) = (0, 0)"
      using add_rows_ends(1-3) [OF _ len assms(4) ends(2,3), of f] by simp
  qed
  have sub: "list_all (\<lambda>(e, f). length f = m \<and> hd f = (0, 0) \<and> last f = (0, 0))
               (AList.map_entry e2 (?sub displacement)
                  (AList.map_entry e1 (?add displacement) out))"
  proof (rule map_entry_list_all [OF add])
    fix f :: "vec list"
    assume f: "length f = m \<and> hd f = (0, 0) \<and> last f = (0, 0)"
    show "length (?sub displacement f) = m \<and> hd (?sub displacement f) = (0, 0)
            \<and> last (?sub displacement f) = (0, 0)"
    proof (cases r)
      case True
      from len have "length (rev displacement) = m" by simp
      moreover from ne ends have "hd (rev displacement) = (0, 0)" "last (rev displacement) = (0, 0)"
        by (simp_all add: hd_rev last_rev)
      ultimately show ?thesis
        using add_rows_ends(4-6) [OF _ _ assms(4), of f "rev displacement"] f True by simp
    next
      case False
      then show ?thesis
        using add_rows_ends(4-6) [OF _ len assms(4) ends(2,3), of f] f by simp
    qed
  qed
  from Cons.IH [OF rest] sub show ?case
    by (simp add: zero_ends_def)
qed

lemma frobenius_norm_nonneg: "0 \<le> frobenius_norm rows"
  unfolding frobenius_norm_def
  by (rule real_sqrt_ge_zero, rule sum_list_nonneg) auto

lemma displacement_length_floor: "1 / 10 ^ 12 \<le> displacement_length displacement"
  by (simp add: displacement_length_def clip_min_def)

lemma displacement_length_pos: "0 < displacement_length displacement"
proof -
  have "(0::real) < 1 / 10 ^ 12" by simp
  then show ?thesis
    using displacement_length_floor [of displacement] by (rule less_le_trans)
qed

lemma clamp_displacement_ends:
  assumes "displacement \<noteq> []" and "hd displacement = (0, 0)" and "last displacement = (0, 0)"
  shows "length (clamp_displacement displacement step_size) = length displacement"
    and "hd (clamp_displacement displacement step_size) = (0, 0)"
    and "last (clamp_displacement displacement step_size) = (0, 0)"
  using assms by (simp_all add: clamp_displacement_def hd_map last_map)

lemma update_anchored:
  assumes "anchored node_positions m d" and "zero_ends m F" and "1 \<le> m"
  shows "anchored node_positions m (update_control_point_positions d F step_size)
         \<and> map fst (update_control_point_positions d F step_size) = map fst d"
  using assms(1,2)
proof (induction F arbitrary: d)
  case Nil
  then show ?case by simp
next
  case (Cons item F)
  obtain edge displacement where item: "item = (edge, displacement)"
    by (cases item)
  obtain s t where edge: "edge = (s, t)" by (cases edge)
  from Cons.prems(2) item have len: "length displacement = m"
    and z: "hd displacement = (0, 0)" "last displacement = (0, 0)"
    and F: "zero_ends m F"
    by (simp_all add: zero_ends_def)
  from len assms(3) have ne: "displacement \<noteq> []" by auto
  note c = clamp_displacement_ends [OF ne z, of step_size]
  let ?g = "\<lambda>c. map (\<lambda>(a, b). vadd a b) (zip c (clamp_displacement displacement step_size))"
  have "list_all (\<lambda>(e, chain). length chain = m \<and> node_positions (fst e) = Some (hd chain)
                                 \<and> node_positions (snd e) = Some (last chain))
          (AList.map_entry edge ?g d)"
  proof (rule map_entry_list_all)
    show "list_all (\<lambda>(e, chain). length chain = m \<and> node_positions (fst e) = Some (hd chain)
                                 \<and> node_positions (snd e) = Some (last chain)) d"
      using Cons.prems(1) by (simp add: anchored_def case_prod_unfold)
    fix chain :: "vec list"
    assume a: "length chain = m \<and> node_positions (fst edge) = Some (hd chain)
                 \<and> node_positions (snd edge) = Some (last chain)"
    from c(1) len have "length (clamp_displacement displacement step_size) = m" by simp
    from add_rows_ends(1-3) [OF _ this assms(3) c(2,3), of chain] a
    show "length (?g chain) = m \<and> node_positions (fst edge) = Some (hd (?g chain))
             \<and> node_positions (snd edge) = Some (last (?g chain))"
      by simp
  qed
  then have "anchored node_positions m (AList.map_entry edge ?g d)"
    by (simp add: anchored_def case_prod_unfold)
  from Cons.IH [OF this F] item show ?case
    by simp
qed

lemma bundle_iterations_anchored:
  assumes "bundle_iterations n d edge_to_k pairs step_size = Inr d'"
    and "anchored node_positions m d" and "1 \<le> m"
  shows "anchored node_positions m d' \<and> map fst d' = map fst d"
  using assms(1,2)
proof (induction n arbitrary: d)
  case 0
  then show ?case by simp
next
  case (Suc n)
  from Suc.prems(1) obtain Fs F where Fs: "get_Fs d edge_to_k = Inr Fs"
    and F: "get_Fe d pairs Fs = Inr F"
    and rest: "bundle_iterations n (update_control_point_positions d F step_size)
                 edge_to_k pairs step_size = Inr d'"
    by (auto simp: ebind_eq_Inr)
  from get_Fs_zero_ends(1) [OF Fs Suc.prems(2) assms(3)]
  have "zero_ends m Fs" .
  from get_Fe_zero_ends [OF F Suc.prems(2) this assms(3)]
  have "zero_ends m F" by simp
  from update_anchored [OF Suc.prems(2) this assms(3), of step_size]
  have u: "anchored node_positions m (update_control_point_positions d F step_size)"
    and k: "map fst (update_control_point_positions d F step_size) = map fst d"
    by simp_all
  from Suc.IH [OF rest u] k show ?case by simp
qed

lemma bundle_cycles_anchored:
  assumes "bundle_cycles c n step_size d edge_to_k pairs = Inr d'"
    and "anchored node_positions m d" and "2 \<le> m"
  shows "\<exists>m'. 2 \<le> m' \<and> anchored node_positions m' d' \<and> map fst d' = map fst d"
  using assms
proof (induction c arbitrary: n step_size d m)
  case 0
  then show ?case by auto
next
  case (Suc c)
  from Suc.prems(1) obtain expanded moved where
    e: "expand_control_points d = Inr expanded"
    and i: "bundle_iterations n expanded edge_to_k pairs step_size = Inr moved"
    and rest: "bundle_cycles c (2 * n div 3) (step_size / 2) moved edge_to_k pairs = Inr d'"
    by (auto simp: ebind_eq_Inr)
  let ?m = "2 * (m - 1) + 1"
  from expand_anchored [OF Suc.prems(2,3)] e
  have a: "anchored node_positions ?m expanded" and k: "map fst expanded = map fst d"
    by auto
  from Suc.prems(3) have m: "1 \<le> ?m" "2 \<le> ?m" by auto
  from bundle_iterations_anchored [OF i a m(1)]
  have a': "anchored node_positions ?m moved" and k': "map fst moved = map fst expanded"
    by simp_all
  from Suc.IH [OF rest a' m(2)] k k' show ?case by auto
qed

lemma straighten_path_ends:
  assumes "path \<noteq> []"
  shows "length (straighten_path path straighten_by) = length path"
    and "hd (straighten_path path straighten_by) = hd path"
    and "last (straighten_path path straighten_by) = last path"
proof -
  show "length (straighten_path path straighten_by) = length path"
    by (simp add: straighten_path_def)
  from assms show "hd (straighten_path path straighten_by) = hd path"
    by (simp add: straighten_path_def hd_map hd_upt hd_conv_nth smul_def vadd_def vsub_def
        algebra_simps)
  have "last (straighten_path path straighten_by)
          = vadd (smul (1 - straighten_by) (last path))
              (smul straighten_by
                 (vadd (hd path)
                    (smul (real (length path - 1) / real (length path - 1))
                       (vsub (last path) (hd path)))))"
    using assms by (simp add: straighten_path_def last_map last_upt last_conv_nth)
  also have "\<dots> = last path"
  proof (cases "length path = 1")
    case True
    then have "hd path = last path"
      by (cases path) auto
    then show ?thesis
      by (simp add: vsub_def smul_def vadd_def algebra_simps)
  next
    case False
    with assms have "real (length path - 1) / real (length path - 1) = 1"
      by (cases path) auto
    then show ?thesis
      by (simp add: vsub_def smul_def vadd_def algebra_simps)
  qed
  finally show "last (straighten_path path straighten_by) = last path" .
qed

text \<open>
  \<open>joins_nodes node_positions paths\<close>: every path of \<open>paths\<close> begins at the position of
  the source of its edge and ends at the position of the target.
\<close>

definition joins_nodes :: "('n \<rightharpoonup> vec) \<Rightarrow> 'n chains \<Rightarrow> bool" where
  "joins_nodes node_positions paths =
     list_all (\<lambda>((s, t), path). path \<noteq> [] \<and> node_positions s = Some (hd path)
                                \<and> node_positions t = Some (last path)) paths"

lemma anchored_joins_nodes:
  assumes "anchored node_positions m d" and "1 \<le> m"
  shows "joins_nodes node_positions d"
  using assms unfolding anchored_def joins_nodes_def list_all_iff by fastforce

lemma straighten_edges_joins_nodes:
  assumes "joins_nodes node_positions d"
  shows "joins_nodes node_positions (straighten_edges d straighten_by)"
    and "map fst (straighten_edges d straighten_by) = map fst d"
proof -
  have "straighten_path path straighten_by \<noteq> []" if "path \<noteq> []" for path :: "vec list"
    using straighten_path_ends(1) [OF that, of straighten_by] that by auto
  with assms show "joins_nodes node_positions (straighten_edges d straighten_by)"
    unfolding joins_nodes_def straighten_edges_def list_all_iff
    by (auto simp: straighten_path_ends)
  show "map fst (straighten_edges d straighten_by) = map fst d"
    by (simp add: straighten_edges_def case_prod_unfold)
qed

lemma map_fst_smooth_edges: "map fst (smooth_edges smooth_path d) = map fst d"
  by (simp add: smooth_edges_def case_prod_unfold)

lemma smooth_edges_joins_nodes:
  assumes "\<And>p. p \<noteq> [] \<Longrightarrow> smooth_path p \<noteq> [] \<and> hd (smooth_path p) = hd p
                                \<and> last (smooth_path p) = last p"
    and "joins_nodes node_positions d"
  shows "joins_nodes node_positions (smooth_edges smooth_path d)"
    and "map fst (smooth_edges smooth_path d) = map fst d"
proof -
  from assms show "joins_nodes node_positions (smooth_edges smooth_path d)"
    unfolding joins_nodes_def smooth_edges_def list_all_iff by auto
  show "map fst (smooth_edges smooth_path d) = map fst d"
    by (simp add: smooth_edges_def case_prod_unfold)
qed

lemma update_list_all:
  assumes "list_all Q d" and "Q (k, v)"
  shows "list_all Q (AList.update k v d)"
  using assms by (induction d) auto

lemma add_reverse_edges_keys:
  assumes "add_reverse_edges reverse_edges d = Inr d'"
  shows "fst ` set d' = fst ` set d \<union> set reverse_edges"
  using assms
proof (induction reverse_edges arbitrary: d)
  case Nil
  then show ?case by simp
next
  case (Cons edge reverse_edges)
  obtain s t where edge: "edge = (s, t)" by (cases edge)
  from Cons.prems(1) edge obtain path where
    rest: "add_reverse_edges reverse_edges (AList.update (s, t) (rev path) d) = Inr d'"
    by (auto simp: ebind_eq_Inr)
  from Cons.IH [OF rest] edge show ?case
    by (auto simp: AList.dom_update)
qed

lemma add_reverse_edges_joins_nodes:
  assumes "add_reverse_edges reverse_edges d = Inr d'" and "joins_nodes node_positions d"
  shows "joins_nodes node_positions d' \<and> fst ` set d' = fst ` set d \<union> set reverse_edges"
  using assms
proof (induction reverse_edges arbitrary: d)
  case Nil
  then show ?case by simp
next
  case (Cons edge reverse_edges)
  obtain s t where edge: "edge = (s, t)" by (cases edge)
  from Cons.prems(1) edge obtain path where
    path: "lookup (map_of d) (t, s) = Inr path"
    and rest: "add_reverse_edges reverse_edges (AList.update (s, t) (rev path) d) = Inr d'"
    by (auto simp: ebind_eq_Inr)
  from path have "((t, s), path) \<in> set d"
    by (simp add: lookup_Inr map_of_SomeD)
  with Cons.prems(2) have p: "path \<noteq> []" "node_positions t = Some (hd path)"
    "node_positions s = Some (last path)"
    unfolding joins_nodes_def list_all_iff by auto
  have "joins_nodes node_positions (AList.update (s, t) (rev path) d)"
    unfolding joins_nodes_def
    by (rule update_list_all) (use Cons.prems(2) p in \<open>simp_all add: joins_nodes_def hd_rev last_rev\<close>)
  from Cons.IH [OF rest this] edge show ?case
    by (auto simp: AList.dom_update)
qed

lemma unidirectional_loop_subset:
  "set U \<subseteq> set (unidirectional_loop edges U)
   \<and> set (unidirectional_loop edges U) \<subseteq> set U \<union> set edges"
proof (induction edges arbitrary: U)
  case Nil
  then show ?case by simp
next
  case (Cons edge edges)
  obtain s t where edge: "edge = (s, t)" by (cases edge)
  let ?U = "if (t, s) \<notin> set U then (if (s, t) \<in> set U then U else U @ [(s, t)]) else U"
  from Cons.IH [of ?U] edge show ?case
    by (auto split: if_splits)
qed

lemma unidirectional_and_reverse:
  "set (unidirectional_loop edges [])
     \<union> set (remdups (filter (\<lambda>e. e \<notin> set (unidirectional_loop edges [])) edges)) = set edges"
  using unidirectional_loop_subset [of "[]" edges] by auto

lemma list_ex_selfloop:
  "list_ex (\<lambda>(source, target). source = target) edges \<longleftrightarrow> (\<exists>e \<in> set edges. fst e = snd e)"
  by (simp add: list_ex_iff case_prod_unfold)

lemma nonloop_edges:
  "set (if list_ex (\<lambda>(source, target). source = target) edges
        then filter (\<lambda>(source, target). source \<noteq> target) edges else edges)
   = {e \<in> set edges. fst e \<noteq> snd e}"
  by (auto simp: list_ex_iff)

lemma bundled_result:
  assumes "get_bundled_edge_paths smooth_path edges node_positions k compatibility_threshold
             total_cycles total_iterations step_size straighten_by = Inr (warnings, paths)"
  shows "fst ` set paths = {e \<in> set edges. fst e \<noteq> snd e}"
    and "(\<And>p. p \<noteq> [] \<Longrightarrow> smooth_path p \<noteq> [] \<and> hd (smooth_path p) = hd p
                                \<and> last (smooth_path p) = last p)
         \<Longrightarrow> joins_nodes node_positions paths"
proof -
  define nonloops where
    "nonloops = (if list_ex (\<lambda>(source, target). source = target) edges
                 then filter (\<lambda>(source, target). source \<noteq> target) edges else edges)"
  define uni where "uni = unidirectional_loop nonloops []"
  define reverse_edges where "reverse_edges = remdups (filter (\<lambda>e. e \<notin> set uni) nonloops)"
  from assms obtain d0 d1 where
    init: "initialize_bundled_control_points uni node_positions = Inr d0"
    and cycles: "\<exists>edge_to_k pairs.
                   bundle_cycles total_cycles total_iterations step_size d0 edge_to_k pairs = Inr d1"
    and reversed: "add_reverse_edges reverse_edges
                 (smooth_edges smooth_path
                    (if straighten_by > 0 then straighten_edges d1 straighten_by else d1))
               = Inr paths"
    unfolding get_bundled_edge_paths_def Let_def ebind_eq_Inr nonloops_def uni_def
      reverse_edges_def
    by auto
  let ?straight = "if straighten_by > 0 then straighten_edges d1 straighten_by else d1"
  note i = initialize_bundled_anchored [OF init]
  from cycles obtain edge_to_k pairs where
    "bundle_cycles total_cycles total_iterations step_size d0 edge_to_k pairs = Inr d1"
    by blast
  from bundle_cycles_anchored [OF this i(1)] obtain m where
    m: "2 \<le> m" and a: "anchored node_positions m d1" and keys: "map fst d1 = map fst d0"
    by auto
  from m have "1 \<le> m" by simp
  with a have j: "joins_nodes node_positions d1"
    by (rule anchored_joins_nodes)
  then have s: "joins_nodes node_positions ?straight"
    by (simp add: straighten_edges_joins_nodes(1))
  have ks: "map fst ?straight = uni"
    using keys i(2) j by (simp add: straighten_edges_joins_nodes(2))
  have kk: "map fst (smooth_edges smooth_path ?straight) = uni"
    using ks by (simp only: map_fst_smooth_edges)
  show "joins_nodes node_positions paths"
    if "\<And>p. p \<noteq> [] \<Longrightarrow> smooth_path p \<noteq> [] \<and> hd (smooth_path p) = hd p
                            \<and> last (smooth_path p) = last p"
    using add_reverse_edges_joins_nodes [OF reversed smooth_edges_joins_nodes(1) [OF that s]]
    by simp
  from add_reverse_edges_keys [OF reversed]
  have "fst ` set paths = set (map fst (smooth_edges smooth_path ?straight)) \<union> set reverse_edges"
    by simp
  also have "\<dots> = set uni \<union> set reverse_edges"
    unfolding kk ..
  also have "\<dots> = set nonloops"
    unfolding uni_def reverse_edges_def by (rule unidirectional_and_reverse)
  also have "\<dots> = {e \<in> set edges. fst e \<noteq> snd e}"
    unfolding nonloops_def by (rule nonloop_edges)
  finally show "fst ` set paths = {e \<in> set edges. fst e \<noteq> snd e}" .
qed

section \<open>Straight edge paths\<close>

subsection \<open>\<open>get_straight_edge_paths\<close> in \<open>_edge_layout.py\<close>\<close>

text \<open>\<open>edge_paths.update(other)\<close> of a Python dictionary.\<close>

definition dict_update :: "('k \<times> 'v) list \<Rightarrow> ('k \<times> 'v) list \<Rightarrow> ('k \<times> 'v) list" where
  "dict_update d other = fold (\<lambda>(k, v). AList.update k v) other d"

fun straight_nonloop_loop :: "'n edge list \<Rightarrow> ('n \<rightharpoonup> vec) \<Rightarrow> 'n chains \<Rightarrow> error + 'n chains" where
  "straight_nonloop_loop [] node_positions edge_paths = Inr edge_paths"
| "straight_nonloop_loop ((source, target) # edges) node_positions edge_paths =
     ebind (lookup node_positions source) (\<lambda>(x1, y1).
     ebind (lookup node_positions target) (\<lambda>(x2, y2).
       straight_nonloop_loop edges node_positions
         (AList.update (source, target) [(x1, y1), (x2, y2)] edge_paths)))"

definition get_straight_nonloop_edge_paths ::
  "'n edge list \<Rightarrow> ('n \<rightharpoonup> vec) \<Rightarrow> error + 'n chains" where
  "get_straight_nonloop_edge_paths edges node_positions =
     straight_nonloop_loop edges node_positions []"

text \<open>
  An argument that is a number or a dictionary. Modelled from the spec:
  \<open>_normalize_numeric_argument\<close> of \<open>_utils.py\<close>, which is not among the sources. The
  docstring of \<open>get_straight_edge_paths\<close> says of \<open>selfloop_radius\<close>: "Dictionary mapping
  each self-loop edge to a radius. If float, all self-loops have the same radius."
\<close>

datatype 'k numeric_argument = Number real | Dict "('k \<times> real) list"

fun normalize_numeric_argument :: "'k numeric_argument \<Rightarrow> 'k list \<Rightarrow> ('k \<times> real) list" where
  "normalize_numeric_argument (Number x) keys = map (\<lambda>key. (key, x)) keys"
| "normalize_numeric_argument (Dict d) keys = d"

text \<open>
  Modelled from the spec: \<open>_get_unit_vector\<close>, \<open>_get_angle\<close> and
  \<open>_get_n_points_on_a_circle\<close> of \<open>_utils.py\<close>, which is not among the sources. The
  specification places a self-loop "on a circle of configurable radius tangent to the
  node, anchored on a configurable starting angle", "centered at
  \<open>node_position + radius * direction\<close>". The unit vector of \<open>v\<close> is \<open>v\<close> over its norm, the
  angle of a vector is its polar angle in \<open>[0, 2 pi)\<close>, and the \<open>n\<close> points on a circle
  are equally spaced, the first one at the start angle.
\<close>

definition get_unit_vector :: "vec \<Rightarrow> error + vec" where
  "get_unit_vector v = vdiv v (linalg_norm v)"

definition get_angle :: "real \<Rightarrow> real \<Rightarrow> real" where
  "get_angle dx dy =
     (let angle = (if 0 < dx then arctan (dy / dx)
                   else if dx < 0 then (if 0 \<le> dy then arctan (dy / dx) + pi
                                        else arctan (dy / dx) - pi)
                   else if 0 < dy then pi / 2 else if dy < 0 then - pi / 2 else 0)
      in if angle < 0 then angle + 2 * pi else angle)"

definition get_n_points_on_a_circle :: "vec \<Rightarrow> real \<Rightarrow> nat \<Rightarrow> real \<Rightarrow> vec list" where
  "get_n_points_on_a_circle xy radius n start_angle =
     map (\<lambda>i. vadd xy (radius * cos (start_angle + 2 * pi * real i / real n),
                        radius * sin (start_angle + 2 * pi * real i / real n)))
         [0..<n]"

text \<open>
  \<open>_get_selfloop_path\<close>: the circle through the node, without its first point (the
  slice \<open>[1:]\<close>).
\<close>

definition get_selfloop_path :: "vec \<Rightarrow> real \<Rightarrow> real \<Rightarrow> nat \<Rightarrow> error + vec list" where
  "get_selfloop_path source_position radius angle total_points =
     ebind (get_unit_vector (cos angle, sin angle)) (\<lambda>unit_vector.
       let center = vadd source_position (smul radius unit_vector)
       in Inr (drop 1 (get_n_points_on_a_circle center radius (total_points + 1)
                         (get_angle (fst unit_vector) (snd unit_vector) + pi))))"

fun straight_selfloop_loop ::
  "'n edge list \<Rightarrow> ('n \<rightharpoonup> vec) \<Rightarrow> ('n edge \<times> real) list \<Rightarrow> ('n edge \<times> real) list \<Rightarrow> nat
     \<Rightarrow> 'n chains \<Rightarrow> error + 'n chains" where
  "straight_selfloop_loop [] node_positions selfloop_radius selfloop_angle total_points
       edge_paths = Inr edge_paths"
| "straight_selfloop_loop (edge # edges) node_positions selfloop_radius selfloop_angle
       total_points edge_paths =
     ebind (lookup node_positions (fst edge)) (\<lambda>source_position.
     ebind (lookup (map_of selfloop_radius) edge) (\<lambda>radius.
     ebind (lookup (map_of selfloop_angle) edge) (\<lambda>angle.
     ebind (get_selfloop_path source_position radius angle total_points) (\<lambda>path.
       straight_selfloop_loop edges node_positions selfloop_radius selfloop_angle total_points
         (AList.update edge path edge_paths)))))"

definition get_straight_selfloop_edge_paths ::
  "'n edge list \<Rightarrow> ('n \<rightharpoonup> vec) \<Rightarrow> ('n edge \<times> real) list \<Rightarrow> ('n edge \<times> real) list
     \<Rightarrow> error + 'n chains" where
  "get_straight_selfloop_edge_paths edges node_positions selfloop_radius selfloop_angle =
     straight_selfloop_loop edges node_positions selfloop_radius selfloop_angle 100 []"

text \<open>
  \<open>get_straight_edge_paths\<close> with the starting angle of the self-loops given, as a number
  or a dictionary. With \<open>selfloop_angle = None\<close> the angles come from
  \<open>_get_optimal_selfloop_angles\<close>, whose search (\<open>_get_optimal_offsets\<close>,
  \<open>_resample_spline\<close>) is in \<open>_utils.py\<close>; that case is not part of the model. No branch
  of the function issues a warning.
\<close>

definition get_straight_edge_paths ::
  "'n edge list \<Rightarrow> ('n \<rightharpoonup> vec) \<Rightarrow> 'n edge numeric_argument \<Rightarrow> 'n edge numeric_argument
     \<Rightarrow> error + 'n chains" where
  "get_straight_edge_paths edges node_positions selfloop_radius selfloop_angle =
     (let nonloops = filter (\<lambda>(source, target). source \<noteq> target) edges
      in ebind (get_straight_nonloop_edge_paths nonloops node_positions) (\<lambda>nonloop_edge_paths.
           let edge_paths = dict_update [] nonloop_edge_paths;
               selfloops = filter (\<lambda>(source, target). source = target) edges
           in if selfloops \<noteq> []
              then
                let selfloop_radius = normalize_numeric_argument selfloop_radius selfloops;
                    selfloop_angle = normalize_numeric_argument selfloop_angle selfloops
                in ebind (get_straight_selfloop_edge_paths selfloops node_positions
                            selfloop_radius selfloop_angle) (\<lambda>selfloop_edge_paths.
                     Inr (dict_update edge_paths selfloop_edge_paths))
              else Inr edge_paths))"

subsection \<open>\<open>_get_straight_edge_paths\<close> in \<open>_main.py\<close>\<close>

text \<open>
  \<open>_shift_edge\<close>: the parallel of a segment at the distance \<open>delta\<close>. The division by
  the norm has no guard.
\<close>

definition shift_edge ::
  "real \<Rightarrow> real \<Rightarrow> real \<Rightarrow> real \<Rightarrow> real \<Rightarrow> error + real \<times> real \<times> real \<times> real" where
  "shift_edge x1 y1 x2 y2 delta =
     (let v = (x2 - x1, y2 - y1);
          v = (- snd v, fst v)
      in ebind (vdiv v (linalg_norm v)) (\<lambda>v.
           let (dx, dy) = smul delta v
           in Inr (x1 + dx, y1 + dy, x2 + dx, y2 + dy)))"

text \<open>
  The loop of \<open>_get_straight_edge_paths\<close>. A self-loop is skipped with
  \<open>warnings.warn\<close>; the warnings are the list of the edges they name.
\<close>

fun main_straight_loop ::
  "'n edge list \<Rightarrow> 'n edge list \<Rightarrow> ('n \<rightharpoonup> vec) \<Rightarrow> ('n edge \<rightharpoonup> real)
     \<Rightarrow> 'n edge list \<times> 'n chains \<Rightarrow> error + 'n edge list \<times> 'n chains" where
  "main_straight_loop [] edge_list node_positions edge_width state = Inr state"
| "main_straight_loop ((source, target) # edges) edge_list node_positions edge_width
       (warnings, edge_paths) =
     (if source = target
      then main_straight_loop edges edge_list node_positions edge_width
             (warnings @ [(source, target)], edge_paths)
      else
        ebind (lookup node_positions source) (\<lambda>(x1, y1).
        ebind (lookup node_positions target) (\<lambda>(x2, y2).
        ebind (if (target, source) \<in> set edge_list
               then ebind (lookup edge_width (source, target)) (\<lambda>w.
                      shift_edge x1 y1 x2 y2 (- 0.5 * w))
               else Inr (x1, y1, x2, y2)) (\<lambda>(x1, y1, x2, y2).
          main_straight_loop edges edge_list node_positions edge_width
            (warnings, AList.update (source, target) [(x1, y1), (x2, y2)] edge_paths)))))"

definition main_get_straight_edge_paths ::
  "'n edge list \<Rightarrow> ('n \<rightharpoonup> vec) \<Rightarrow> ('n edge \<rightharpoonup> real) \<Rightarrow> error + 'n edge list \<times> 'n chains" where
  "main_get_straight_edge_paths edge_list node_positions edge_width =
     main_straight_loop edge_list edge_list node_positions edge_width ([], [])"

section \<open>The path through the control points of a curved edge\<close>

text \<open>
  \<open>_get_path_through_control_points\<close> and \<open>_smooth_edge_paths\<close>. The spline \<open>_bspline\<close>
  is in \<open>_utils.py\<close>, which is not among the sources: it is the parameter \<open>bspline\<close>.
\<close>

definition get_path_through_control_points ::
  "('n edge \<times> nat list) list \<Rightarrow> ('n \<rightharpoonup> vec) \<Rightarrow> (nat \<rightharpoonup> vec) \<Rightarrow> error + 'n chains" where
  "get_path_through_control_points edge_to_control_points node_positions
       control_point_positions =
     emap (\<lambda>((source, target), control_points).
             ebind (lookup node_positions source) (\<lambda>ps.
             ebind (emap (lookup control_point_positions) control_points) (\<lambda>inner.
             ebind (lookup node_positions target) (\<lambda>pt.
               Inr ((source, target), [ps] @ inner @ [pt])))))
          edge_to_control_points"

definition smooth_edge_paths :: "(vec list \<Rightarrow> vec list) \<Rightarrow> 'n chains \<Rightarrow> 'n chains" where
  "smooth_edge_paths bspline edge_to_path =
     map (\<lambda>(edge, path). (edge, bspline path)) edge_to_path"

lemma linalg_norm_unit [simp]: "linalg_norm (1, 0) = 1" "linalg_norm (0, 1) = 1"
  "linalg_norm (- 1, 0) = 1" "linalg_norm (0, - 1) = 1"
  by (simp_all add: linalg_norm_def)

lemma straight_nonloop_loop_result:
  assumes "straight_nonloop_loop edges node_positions acc = Inr d"
  shows "fst ` set d = fst ` set acc \<union> set edges
         \<and> (distinct (map fst acc) \<longrightarrow> distinct (map fst d))
         \<and> (\<forall>s t. (s, t) \<in> set edges \<longrightarrow>
               (\<exists>ps pt. node_positions s = Some ps \<and> node_positions t = Some pt
                        \<and> map_of d (s, t) = Some [ps, pt]))
         \<and> (\<forall>e. e \<notin> set edges \<longrightarrow> map_of d e = map_of acc e)"
  using assms
proof (induction edges arbitrary: acc)
  case Nil
  then show ?case by simp
next
  case (Cons edge edges)
  obtain s0 t0 where edge: "edge = (s0, t0)" by (cases edge)
  from Cons.prems edge obtain ps pt where
    ps: "node_positions s0 = Some ps" and pt: "node_positions t0 = Some pt"
    and rest: "straight_nonloop_loop edges node_positions
                 (AList.update (s0, t0) [ps, pt] acc) = Inr d"
    by (auto simp: ebind_eq_Inr lookup_Inr split: prod.splits)
  note IH = Cons.IH [OF rest]
  from IH have keys: "fst ` set d = fst ` set (AList.update (s0, t0) [ps, pt] acc) \<union> set edges"
    and dist: "distinct (map fst (AList.update (s0, t0) [ps, pt] acc)) \<longrightarrow> distinct (map fst d)"
    and inner: "\<And>s t. (s, t) \<in> set edges \<Longrightarrow>
               (\<exists>ps pt. node_positions s = Some ps \<and> node_positions t = Some pt
                        \<and> map_of d (s, t) = Some [ps, pt])"
    and frame: "\<And>e. e \<notin> set edges \<Longrightarrow> map_of d e = map_of (AList.update (s0, t0) [ps, pt] acc) e"
    by blast+
  have 1: "fst ` set d = fst ` set acc \<union> set (edge # edges)"
    using keys edge by (auto simp: AList.dom_update)
  have 2: "distinct (map fst acc) \<longrightarrow> distinct (map fst d)"
    using dist by (simp add: AList.distinct_update)
  have 3: "\<exists>ps pt. node_positions s = Some ps \<and> node_positions t = Some pt
                        \<and> map_of d (s, t) = Some [ps, pt]"
    if "(s, t) \<in> set (edge # edges)" for s t
  proof (cases "(s, t) \<in> set edges")
    case True
    then show ?thesis by (rule inner)
  next
    case False
    with that edge have "s = s0" "t = t0" by auto
    with frame [OF False] ps pt show ?thesis
      by (simp add: AList.update_conv')
  qed
  have 4: "map_of d e = map_of acc e" if "e \<notin> set (edge # edges)" for e
    using that frame [of e] edge by (auto simp: AList.update_conv')
  from 1 2 3 4 show ?case by blast
qed

lemma dict_update_keys: "fst ` set (dict_update d other) = fst ` set d \<union> fst ` set other"
  unfolding dict_update_def
proof (induction other arbitrary: d)
  case Nil
  then show ?case by simp
next
  case (Cons item other)
  then show ?case
    by (cases item) (auto simp: AList.dom_update)
qed

lemma dict_update_frame:
  assumes "k \<notin> fst ` set other"
  shows "map_of (dict_update d other) k = map_of d k"
  using assms unfolding dict_update_def
proof (induction other arbitrary: d)
  case Nil
  then show ?case by simp
next
  case (Cons item other)
  then show ?case
    by (cases item) (auto simp: AList.update_conv')
qed

lemma dict_update_map_of:
  assumes "distinct (map fst other)"
  shows "map_of (dict_update d other) x
           = (case map_of other x of Some v \<Rightarrow> Some v | None \<Rightarrow> map_of d x)"
  using assms unfolding dict_update_def
proof (induction other arbitrary: d)
  case Nil
  then show ?case by simp
next
  case (Cons item other)
  obtain k v where item: "item = (k, v)" by (cases item)
  with Cons.prems have k: "map_of other k = None" and d: "distinct (map fst other)"
    by (auto simp: map_of_eq_None_iff)
  from Cons.IH [OF d, of "AList.update k v d"] k item show ?case
    by (auto simp: AList.update_conv' split: option.splits)
qed

lemma straight_selfloop_loop_keys:
  assumes "straight_selfloop_loop edges node_positions radius angle n acc = Inr d"
  shows "fst ` set d = fst ` set acc \<union> set edges"
  using assms
proof (induction edges arbitrary: acc)
  case Nil
  then show ?case by simp
next
  case (Cons edge edges)
  from Cons.prems obtain path where
    "straight_selfloop_loop edges node_positions radius angle n (AList.update edge path acc)
       = Inr d"
    by (auto simp: ebind_eq_Inr)
  from Cons.IH [OF this] show ?case
    by (auto simp: AList.dom_update)
qed

lemma get_straight_edge_paths_result:
  assumes "get_straight_edge_paths edges node_positions selfloop_radius selfloop_angle = Inr paths"
  shows "fst ` set paths = set edges"
    and "\<And>s t. (s, t) \<in> set edges \<Longrightarrow> s \<noteq> t \<Longrightarrow>
           \<exists>ps pt. node_positions s = Some ps \<and> node_positions t = Some pt
                    \<and> map_of paths (s, t) = Some [ps, pt]"
proof -
  define nonloops where "nonloops = filter (\<lambda>(source, target). source \<noteq> target) edges"
  define selfloops where "selfloops = filter (\<lambda>(source, target). source = target) edges"
  from assms obtain nl where nl: "straight_nonloop_loop nonloops node_positions [] = Inr nl"
    and run: "(if selfloops \<noteq> []
               then ebind (straight_selfloop_loop selfloops node_positions
                             (normalize_numeric_argument selfloop_radius selfloops)
                             (normalize_numeric_argument selfloop_angle selfloops) 100 [])
                      (\<lambda>selfloop_edge_paths.
                         Inr (dict_update (dict_update [] nl) selfloop_edge_paths))
               else Inr (dict_update [] nl)) = Inr paths"
    unfolding get_straight_edge_paths_def get_straight_nonloop_edge_paths_def
      get_straight_selfloop_edge_paths_def Let_def nonloops_def selfloops_def
    by (subst (asm) ebind_eq_Inr) blast
  have paths: "paths = dict_update [] nl \<and> selfloops = []
                \<or> (\<exists>sl r a. straight_selfloop_loop selfloops node_positions r a 100 [] = Inr sl
                      \<and> paths = dict_update (dict_update [] nl) sl)"
  proof (cases "selfloops = []")
    case True
    with run show ?thesis by simp
  next
    case False
    with run obtain sl where
      "straight_selfloop_loop selfloops node_positions
         (normalize_numeric_argument selfloop_radius selfloops)
         (normalize_numeric_argument selfloop_angle selfloops) 100 [] = Inr sl"
      and "paths = dict_update (dict_update [] nl) sl"
      by (auto simp: ebind_eq_Inr)
    then show ?thesis by blast
  qed
  note r = straight_nonloop_loop_result [OF nl]
  from r have keys: "fst ` set nl = set nonloops" and dist: "distinct (map fst nl)"
    by simp_all
  have split: "set nonloops \<union> set selfloops = set edges"
    by (auto simp: nonloops_def selfloops_def)
  from paths show "fst ` set paths = set edges"
  proof
    assume "paths = dict_update [] nl \<and> selfloops = []"
    with keys split show ?thesis
      by (simp add: dict_update_keys)
  next
    assume "\<exists>sl r a. straight_selfloop_loop selfloops node_positions r a 100 [] = Inr sl
                      \<and> paths = dict_update (dict_update [] nl) sl"
    then obtain sl r a where
      sl: "straight_selfloop_loop selfloops node_positions r a 100 [] = Inr sl"
      and p: "paths = dict_update (dict_update [] nl) sl"
      by blast
    from straight_selfloop_loop_keys [OF sl] keys split p show ?thesis
      by (simp add: dict_update_keys)
  qed
  fix s t
  assume e: "(s, t) \<in> set edges" and ne: "s \<noteq> t"
  then have "(s, t) \<in> set nonloops" and nsl: "(s, t) \<notin> set selfloops"
    by (simp_all add: nonloops_def selfloops_def)
  with r obtain ps pt where ps: "node_positions s = Some ps" and pt: "node_positions t = Some pt"
    and m: "map_of nl (s, t) = Some [ps, pt]"
    by blast
  have base: "map_of (dict_update [] nl) (s, t) = Some [ps, pt]"
    using m by (simp add: dict_update_map_of [OF dist])
  from paths have "map_of paths (s, t) = Some [ps, pt]"
  proof
    assume "paths = dict_update [] nl \<and> selfloops = []"
    with base show ?thesis by simp
  next
    assume "\<exists>sl r a. straight_selfloop_loop selfloops node_positions r a 100 [] = Inr sl
                      \<and> paths = dict_update (dict_update [] nl) sl"
    then obtain sl r a where
      sl: "straight_selfloop_loop selfloops node_positions r a 100 [] = Inr sl"
      and p: "paths = dict_update (dict_update [] nl) sl"
      by blast
    from straight_selfloop_loop_keys [OF sl] nsl have "(s, t) \<notin> fst ` set sl"
      by simp
    with base p show ?thesis
      by (simp add: dict_update_frame)
  qed
  with ps pt show "\<exists>ps pt. node_positions s = Some ps \<and> node_positions t = Some pt
                    \<and> map_of paths (s, t) = Some [ps, pt]"
    by blast
qed

lemma main_straight_loop_step:
  assumes "s0 \<noteq> t0"
    and "main_straight_loop ((s0, t0) # edges) edge_list node_positions edge_width (ws, acc)
           = Inr r"
  shows "\<exists>ps pt q. node_positions s0 = Some ps \<and> node_positions t0 = Some pt
           \<and> ((t0, s0) \<notin> set edge_list \<longrightarrow> q = [ps, pt])
           \<and> main_straight_loop edges edge_list node_positions edge_width
                (ws, AList.update (s0, t0) q acc) = Inr r"
proof (cases "node_positions s0")
  case None
  with assms show ?thesis by (simp add: lookup_def)
next
  case ps: (Some ps)
  show ?thesis
  proof (cases "node_positions t0")
    case None
    with assms ps show ?thesis by (simp add: lookup_def split: prod.splits)
  next
    case pt: (Some pt)
    obtain x1 y1 x2 y2 where xy: "ps = (x1, y1)" "pt = (x2, y2)"
      by (cases ps; cases pt) auto
    show ?thesis
    proof (cases "(t0, s0) \<in> set edge_list")
      case False
      with assms ps pt xy show ?thesis by (simp add: lookup_def)
    next
      case True
      with assms ps pt xy obtain shifted where
        "(case shifted of (x1, y1, x2, y2) \<Rightarrow>
            main_straight_loop edges edge_list node_positions edge_width
              (ws, AList.update (s0, t0) [(x1, y1), (x2, y2)] acc)) = Inr r"
        by (auto simp: lookup_def ebind_eq_Inr)
      then obtain q where
        "main_straight_loop edges edge_list node_positions edge_width
           (ws, AList.update (s0, t0) q acc) = Inr r"
        by (cases shifted) auto
      with ps pt True show ?thesis by blast
    qed
  qed
qed

lemma main_straight_loop_result:
  assumes "main_straight_loop edges edge_list node_positions edge_width (ws, acc) = Inr (ws', d)"
  shows "ws' = ws @ filter (\<lambda>(source, target). source = target) edges
         \<and> fst ` set d = fst ` set acc \<union> {e \<in> set edges. fst e \<noteq> snd e}
         \<and> (\<forall>s t. (s, t) \<in> set edges \<and> s \<noteq> t \<and> (t, s) \<notin> set edge_list \<longrightarrow>
               (\<exists>ps pt. node_positions s = Some ps \<and> node_positions t = Some pt
                        \<and> map_of d (s, t) = Some [ps, pt]))
         \<and> (\<forall>e. e \<notin> set edges \<longrightarrow> map_of d e = map_of acc e)"
  using assms
proof (induction edges arbitrary: ws acc)
  case Nil
  then show ?case by simp
next
  case (Cons edge edges)
  obtain s0 t0 where edge: "edge = (s0, t0)" by (cases edge)
  show ?case
  proof (cases "s0 = t0")
    case True
    with Cons.prems edge have
      "main_straight_loop edges edge_list node_positions edge_width (ws @ [(s0, t0)], acc)
         = Inr (ws', d)"
      by simp
    from Cons.IH [OF this] True edge show ?thesis
      by auto
  next
    case False
    from Cons.prems edge have
      "main_straight_loop ((s0, t0) # edges) edge_list node_positions edge_width (ws, acc)
         = Inr (ws', d)"
      by simp
    from main_straight_loop_step [OF False this] obtain ps pt q where
      ps: "node_positions s0 = Some ps" and pt: "node_positions t0 = Some pt"
      and q: "(t0, s0) \<notin> set edge_list \<longrightarrow> q = [ps, pt]"
      and rest: "main_straight_loop edges edge_list node_positions edge_width
                   (ws, AList.update (s0, t0) q acc) = Inr (ws', d)"
      by blast
    note IH = Cons.IH [OF rest]
    from IH have w: "ws' = ws @ filter (\<lambda>(source, target). source = target) edges"
      and keys: "fst ` set d = fst ` set (AList.update (s0, t0) q acc)
                   \<union> {e \<in> set edges. fst e \<noteq> snd e}"
      and inner: "\<And>s t. (s, t) \<in> set edges \<and> s \<noteq> t \<and> (t, s) \<notin> set edge_list \<Longrightarrow>
               (\<exists>ps pt. node_positions s = Some ps \<and> node_positions t = Some pt
                        \<and> map_of d (s, t) = Some [ps, pt])"
      and frame: "\<And>e. e \<notin> set edges \<Longrightarrow> map_of d e = map_of (AList.update (s0, t0) q acc) e"
      by blast+
    have 1: "ws' = ws @ filter (\<lambda>(source, target). source = target) (edge # edges)"
      using w edge False by simp
    have 2: "fst ` set d = fst ` set acc \<union> {e \<in> set (edge # edges). fst e \<noteq> snd e}"
      using keys edge False by (auto simp: AList.dom_update)
    have 3: "\<exists>ps pt. node_positions s = Some ps \<and> node_positions t = Some pt
                        \<and> map_of d (s, t) = Some [ps, pt]"
      if "(s, t) \<in> set (edge # edges) \<and> s \<noteq> t \<and> (t, s) \<notin> set edge_list" for s t
    proof (cases "(s, t) \<in> set edges")
      case True
      with that show ?thesis by (intro inner) simp
    next
      case no: False
      with that edge have "s = s0" "t = t0" by auto
      with frame [OF no] ps pt q that show ?thesis
        by (simp add: AList.update_conv')
    qed
    have 4: "map_of d e = map_of acc e" if "e \<notin> set (edge # edges)" for e
      using that frame [of e] edge by (auto simp: AList.update_conv')
    from 1 2 3 4 show ?thesis by blast
  qed
qed

lemma get_path_through_control_points_joins_nodes:
  assumes "get_path_through_control_points edge_to_control_points node_positions
             control_point_positions = Inr paths"
  shows "joins_nodes node_positions paths"
  unfolding joins_nodes_def
  using assms [unfolded get_path_through_control_points_def]
  by (rule emap_list_all) (auto simp: ebind_eq_Inr lookup_Inr split: prod.splits)

lemma smooth_edge_paths_joins_nodes:
  assumes "\<And>p. p \<noteq> [] \<Longrightarrow> bspline p \<noteq> [] \<and> hd (bspline p) = hd p \<and> last (bspline p) = last p"
    and "joins_nodes node_positions d"
  shows "joins_nodes node_positions (smooth_edge_paths bspline d)"
  using assms unfolding joins_nodes_def smooth_edge_paths_def list_all_iff by auto

section \<open>Divisions without a guard\<close>

text \<open>
  Claim C9 says that the compatibility scoring and the force updates of the bundling
  protect every division over zero-length vectors, coincident points and zero-length
  projected intervals by a floor or a clamp. Only \<open>_update_control_point_positions\<close>
  does so (\<open>displacement_length\<close> is at least \<open>1e-12\<close>). The stiffness \<open>_get_k\<close> divides
  by the length of the edge, \<open>Segment\<close> and \<open>_get_scale_compatibility\<close> by the length of
  a segment, \<open>_get_visibility\<close> by the length of the projected interval and \<open>_get_Fe\<close> by
  the squared distance of two control points, none of them guarded: an edge between two
  nodes at the same position has the stiffness \<open>k / 0\<close> and the unit vector \<open>nan\<close>, two
  such edges are recorded with the compatibility \<open>nan\<close>, two perpendicular edges that
  leave the origin have the visibility \<open>nan\<close>, and two edges whose midpoints coincide
  reach a division by zero in \<open>_get_Fe\<close>.
\<close>

theorem unguarded_divisions:
  "get_k [(0::nat, 1)] [0 \<mapsto> (0, 0), 1 \<mapsto> (0, 0)] 500 = Inl NonFinite
   \<and> get_bundled_edge_paths (\<lambda>path. path) [(0::nat, 1)] [0 \<mapsto> (0, 0), 1 \<mapsto> (0, 0)]
         500 0.05 6 50 0.04 0 = Inl NonFinite
   \<and> unit_vector (Segment (np_array (0, 0)) (np_array (0, 0))) = (NaN, NaN)
   \<and> get_edge_compatibility [(0::nat, 1), (2, 3)]
         [0 \<mapsto> (0, 0), 1 \<mapsto> (0, 0), 2 \<mapsto> (1, 0), 3 \<mapsto> (1, 0)] 0.05
       = Inr [((0, 1), (2, 3), NaN, False)]
   \<and> get_visibility (Segment (np_array (0, 0)) (np_array (1, 0)))
         (Segment (np_array (0, 0)) (np_array (0, 1))) = Inr NaN
   \<and> get_Fe [((0::nat, 1), [(0, 0), (1, 0), (2, 0)]), ((2, 3), [(0, - 0.2), (1, 0), (2, 0.2)])]
         [((0, 1), (2, 3), Finite 1, False)]
         [((0, 1), [(0, 0), (0, 0), (0, 0)]), ((2, 3), [(0, 0), (0, 0), (0, 0)])]
       = Inl NonFinite
   \<and> 1 / 10 ^ 12 \<le> displacement_length F"
proof (intro conjI)
  show "get_k [(0::nat, 1)] [0 \<mapsto> (0, 0), 1 \<mapsto> (0, 0)] 500 = Inl NonFinite"
    by (simp add: get_k_def lookup_def fdiv_def vsub_def linalg_norm_def)
  then show "get_bundled_edge_paths (\<lambda>path. path) [(0::nat, 1)] [0 \<mapsto> (0, 0), 1 \<mapsto> (0, 0)]
         500 0.05 6 50 0.04 0 = Inl NonFinite"
    by (simp add: get_bundled_edge_paths_def)
  show "unit_vector (Segment (np_array (0, 0)) (np_array (0, 0))) = (NaN, NaN)"
    by (simp add: segment_eval)
  show "get_edge_compatibility [(0::nat, 1), (2, 3)]
         [0 \<mapsto> (0, 0), 1 \<mapsto> (0, 0), 2 \<mapsto> (1, 0), 3 \<mapsto> (1, 0)] 0.05
       = Inr [((0, 1), (2, 3), NaN, False)]"
    by (simp add: get_edge_compatibility_def segment_of_edge_def lookup_def segment_eval)
  show "get_visibility (Segment (np_array (0, 0)) (np_array (1, 0)))
         (Segment (np_array (0, 0)) (np_array (0, 1))) = Inr NaN"
    by (simp add: segment_eval)
  show "get_Fe [((0::nat, 1), [(0, 0), (1, 0), (2, 0)]), ((2, 3), [(0, - 0.2), (1, 0), (2, 0.2)])]
         [((0, 1), (2, 3), Finite 1, False)]
         [((0, 1), [(0, 0), (0, 0), (0, 0)]), ((2, 3), [(0, 0), (0, 0), (0, 0)])]
       = Inl NonFinite"
    by (simp add: lookup_def pair_displacement_def set_ends_zero_def vsub_def smul_def vdiv_def)
  show "1 / 10 ^ 12 \<le> displacement_length F"
    by (rule displacement_length_floor)
qed

end
